theory Spec2Isabelle
  imports Complex_Main "HOL-Library.Sublist"
begin

section \<open>Python strings\<close>

text \<open>
  A Python \<open>str\<close> whose code points are all below 256 is modelled as a \<open>string\<close>: the
  type \<open>char\<close> has exactly these code points. On such strings \<open>str.split()\<close> and
  \<open>str.lower()\<close> give strings of the same kind, and the functions of this section compute
  what Python computes. Below 256 the whitespace of \<open>str.split()\<close> is TAB to CR (9 to 13),
  FS to US (28 to 31), SPACE, NEXT LINE (133) and NO-BREAK SPACE (160); \<open>str.lower()\<close> maps
  A to Z and the capital letters 192 to 222, the multiplication sign 215 apart, to the letter
  32 places on and keeps every other character.

  \<open>str.title()\<close> puts a letter that follows no cased character in title case and every
  other character in lower case. The title case of a small letter is the capital 32 places
  before it and the title case of the sharp s (223) is "Ss"; that of the micro sign (181) and
  of the y with diaeresis (255) lies beyond 255, cannot be held by a \<open>string\<close>, and is
  left as the character itself here. Title case only goes into the \<open>name\<close> of a stored
  \<open>patient_bio\<close>, which no route reads.
\<close>

definition py_isspace :: "char \<Rightarrow> bool" where
  \<comment> \<open>\<open>str.isspace\<close> on one character\<close>
  "py_isspace c =
     (let n = (of_char c :: nat)
      in (9 \<le> n \<and> n \<le> 13) \<or> (28 \<le> n \<and> n \<le> 32) \<or> n = 133 \<or> n = 160)"

definition py_isupper :: "char \<Rightarrow> bool" where
  \<comment> \<open>the capital letters: the characters that \<open>str.lower()\<close> changes\<close>
  "py_isupper c =
     (let n = (of_char c :: nat)
      in (65 \<le> n \<and> n \<le> 90) \<or> (192 \<le> n \<and> n \<le> 222 \<and> n \<noteq> 215))"

definition py_islower :: "char \<Rightarrow> bool" where
  \<comment> \<open>the small letters that have a capital 32 places before them\<close>
  "py_islower c =
     (let n = (of_char c :: nat)
      in (97 \<le> n \<and> n \<le> 122) \<or> (224 \<le> n \<and> n \<le> 254 \<and> n \<noteq> 247))"

definition py_iscased :: "char \<Rightarrow> bool" where
  \<comment> \<open>the cased characters: the letters, the ordinal indicators 170 and 186, the micro
      sign 181, the sharp s 223 and the y with diaeresis 255\<close>
  "py_iscased c =
     (let n = (of_char c :: nat)
      in py_isupper c \<or> py_islower c \<or> n = 170 \<or> n = 181 \<or> n = 186 \<or> n = 223 \<or> n = 255)"

definition lower_char :: "char \<Rightarrow> char" where
  "lower_char c = (if py_isupper c then char_of ((of_char c :: nat) + 32) else c)"

definition title_char :: "char \<Rightarrow> string" where
  "title_char c =
     (if py_islower c then [char_of ((of_char c :: nat) - 32)]
      else if (of_char c :: nat) = 223 then ''Ss''
      else [c])"

definition py_lower :: "string \<Rightarrow> string" where
  \<comment> \<open>\<open>s.lower()\<close>\<close>
  "py_lower s = map lower_char s"

fun title_from :: "bool \<Rightarrow> string \<Rightarrow> string" where
  \<comment> \<open>The loop of \<open>str.title()\<close>; the flag is \<open>previous_is_cased\<close>.\<close>
  "title_from prev [] = []"
| "title_from prev (c # cs) =
     (if prev then [lower_char c] else title_char c) @ title_from (py_iscased c) cs"

definition py_title :: "string \<Rightarrow> string" where
  \<comment> \<open>\<open>s.title()\<close>\<close>
  "py_title s = title_from False s"

function py_split :: "string \<Rightarrow> string list" where
  \<comment> \<open>\<open>s.split()\<close> with no separator: skip a run of whitespace, then take the run of
      other characters as one token, until the string is used up.\<close>
  "py_split s =
     (case dropWhile py_isspace s of
        [] \<Rightarrow> []
      | c # cs \<Rightarrow>
          (c # takeWhile (\<lambda>x. \<not> py_isspace x) cs)
            # py_split (dropWhile (\<lambda>x. \<not> py_isspace x) cs))"
  by pat_completeness auto
termination
proof (relation "measure length")
  show "wf (measure length)" by simp
next
  fix s :: string and c cs
  assume d: "dropWhile py_isspace s = c # cs"
  have "length (dropWhile (\<lambda>x. \<not> py_isspace x) cs) \<le> length cs"
    by (rule length_dropWhile_le)
  moreover have "length (c # cs) \<le> length s"
    unfolding d [symmetric] by (rule length_dropWhile_le)
  ultimately show "(dropWhile (\<lambda>x. \<not> py_isspace x) cs, s) \<in> measure length"
    by simp
qed

declare py_split.simps [simp del]

section \<open>Name Matcher\<close>

text \<open>
  Both routes compare two names with the same expression,
  \<^verbatim>\<open>set(name.lower() for name in a.split()) == set(name.lower() for name in b.split())\<close>.
\<close>

definition name_parts :: "string \<Rightarrow> string set" where
  \<comment> \<open>\<open>set(name.lower() for name in s.split())\<close>\<close>
  "name_parts s = set (map py_lower (py_split s))"

definition names_match :: "string \<Rightarrow> string \<Rightarrow> bool" where
  \<comment> \<open>\<open>name1_parts == name2_parts\<close>\<close>
  "names_match a b = (name_parts a = name_parts b)"

subsection \<open>The matcher in the words of the specification\<close>

fun spec_split_on_ws :: "string \<Rightarrow> string list" where
  \<comment> \<open>Cut the text at every single whitespace character; two adjacent whitespace
      characters leave an empty piece between them.\<close>
  "spec_split_on_ws [] = [[]]"
| "spec_split_on_ws (c # cs) =
     (if py_isspace c then [] # spec_split_on_ws cs
      else (case spec_split_on_ws cs of
              [] \<Rightarrow> [[c]]
            | t # ts \<Rightarrow> (c # t) # ts))"



section \<open>Documents and Python values\<close>

text \<open>
  The store is schemaless: a stored document, and what \<open>find_one\<close> hands back to Python,
  is a tree of values. Floats are kept as real numbers; nothing below calculates with them.
\<close>

datatype bson =
    BNull
  | BBool bool
  | BInt int
  | BNum real
  | BStr string
  | BArr "bson list"
  | BDoc "(string \<times> bson) list"

datatype py_error =
    KeyError string
  | TypeError
  | AttributeError
  | ValueError string
  | ValidationError "string list"
  | WriteError
  | OverflowError
      \<comment> \<open>raised by the driver for an integer that does not fit in eight bytes\<close>

fun getitem :: "bson \<Rightarrow> string \<Rightarrow> py_error + bson" where
  \<comment> \<open>\<open>d[k]\<close> for a string key: only a dict can be subscripted with one.\<close>
  "getitem (BDoc kvs) k = (case map_of kvs k of None \<Rightarrow> Inl (KeyError k) | Some v \<Rightarrow> Inr v)"
| "getitem _ k = Inl TypeError"

fun py_iter :: "bson \<Rightarrow> py_error + bson list" where
  \<comment> \<open>The values a \<open>for\<close> loop runs through: the elements of a list, the keys of a dict,
      the characters of a string.\<close>
  "py_iter (BArr xs) = Inr xs"
| "py_iter (BDoc kvs) = Inr (map (\<lambda>kv. BStr (fst kv)) kvs)"
| "py_iter (BStr s) = Inr (map (\<lambda>c. BStr [c]) s)"
| "py_iter _ = Inl TypeError"

fun py_len :: "bson \<Rightarrow> py_error + nat" where
  \<comment> \<open>\<open>len(v)\<close>\<close>
  "py_len (BArr xs) = Inr (length xs)"
| "py_len (BDoc kvs) = Inr (length kvs)"
| "py_len (BStr s) = Inr (length s)"
| "py_len _ = Inl TypeError"

fun split_method :: "bson \<Rightarrow> py_error + string list" where
  \<comment> \<open>\<open>v.split()\<close>: only a string has the method.\<close>
  "split_method (BStr s) = Inr (py_split s)"
| "split_method _ = Inl AttributeError"

section \<open>Document Store\<close>

text \<open>
  The patients collection is the list of its documents in insertion order; \<open>find_one\<close> and
  \<open>update_one\<close> act on the first document that matches the filter. The \<open>_id\<close> that the
  store adds to an inserted document is left out: every projection drops it and no filter
  names it. Every call that reaches the store is recorded in \<open>calls\<close>.

  A write is taken to be accepted whenever the types of the fields it touches fit. The limit
  on the size of a document, and the eight-byte range of the integers inside a visit record
  (the dosage, frequency and duration of a medication), are outside this model.
\<close>

datatype mfilter =
    IdNumber int
      \<comment> \<open>\<open>{'id_number': n}\<close>\<close>
  | IdNumberAndDependentName int bson
      \<comment> \<open>\<open>{'id_number': n, 'dependents.name': v}\<close>\<close>

datatype mupdate =
    Push string bson
      \<comment> \<open>\<open>{'$push': {field: v}}\<close>\<close>
  | PushDependentsVisits bson
      \<comment> \<open>\<open>{'$push': {'dependents.$.visits': v}}\<close>\<close>

datatype store_call =
    Find_one int string
      \<comment> \<open>filter \<open>{'id_number': n}\<close>, projection \<open>{field: 1, '_id': 0}\<close>\<close>
  | Insert_one bson
  | Update_one mfilter mupdate

record store =
  coll :: "bson list"
  calls :: "store_call list"

fun field :: "string \<Rightarrow> bson \<Rightarrow> bson option" where
  "field k (BDoc kvs) = map_of kvs k"
| "field k _ = None"

definition int64 :: "int \<Rightarrow> bool" where
  \<comment> \<open>The integers that BSON encodes: eight bytes, signed.\<close>
  "int64 n = (- (2 ^ 63) \<le> n \<and> n < 2 ^ 63)"

fun same_value :: "bson \<Rightarrow> bson \<Rightarrow> bool" where
  \<comment> \<open>Equality as the store compares values: numbers by their value, whatever their
      type.\<close>
  "same_value (BInt n) (BNum r) = (r = of_int n)"
| "same_value (BNum r) (BInt n) = (r = of_int n)"
| "same_value q v = (v = q)"

fun eq_match :: "bson \<Rightarrow> bson \<Rightarrow> bool" where
  \<comment> \<open>An equality condition on a field: the field holds the value, or an array that
      contains it.\<close>
  "eq_match q (BArr xs) = (BArr xs = q \<or> list_ex (same_value q) xs)"
| "eq_match q v = same_value q v"

definition matches_id_number :: "int \<Rightarrow> bson \<Rightarrow> bool" where
  \<comment> \<open>The document meets \<open>{'id_number': n}\<close>. A filter is sent as BSON: an \<open>n\<close> outside
      eight bytes cannot be sent, and nothing matches it.\<close>
  "matches_id_number n d =
     (int64 n \<and>
      (case field ''id_number'' d of None \<Rightarrow> False | Some v \<Rightarrow> eq_match (BInt n) v))"

definition named :: "bson \<Rightarrow> bson \<Rightarrow> bool" where
  \<comment> \<open>The array element has a \<open>name\<close> that meets the condition.\<close>
  "named q c = (case field ''name'' c of None \<Rightarrow> False | Some v \<Rightarrow> eq_match q v)"

definition matches_dependent_name :: "bson \<Rightarrow> bson \<Rightarrow> bool" where
  \<comment> \<open>\<open>'dependents.name'\<close> reaches into an embedded document or into the documents of
      an array.\<close>
  "matches_dependent_name q d =
     (case field ''dependents'' d of
        Some (BArr cs) \<Rightarrow> list_ex (named q) cs
      | Some (BDoc kvs) \<Rightarrow> named q (BDoc kvs)
      | _ \<Rightarrow> False)"

fun filter_matches :: "mfilter \<Rightarrow> bson \<Rightarrow> bool" where
  "filter_matches (IdNumber n) d = matches_id_number n d"
| "filter_matches (IdNumberAndDependentName n q) d =
     (matches_id_number n d \<and> matches_dependent_name q d)"

definition project :: "string \<Rightarrow> bson \<Rightarrow> bson" where
  "project f d = (case d of BDoc kvs \<Rightarrow> BDoc (filter (\<lambda>kv. fst kv = f) kvs) | v \<Rightarrow> v)"

fun update_first :: "('a \<Rightarrow> bool) \<Rightarrow> ('a \<Rightarrow> py_error + 'a) \<Rightarrow> 'a list \<Rightarrow> py_error + 'a list" where
  \<comment> \<open>Change the first element that meets the condition; change nothing when none does.\<close>
  "update_first P f [] = Inr []"
| "update_first P f (x # xs) =
     (if P x then (case f x of Inl e \<Rightarrow> Inl e | Inr y \<Rightarrow> Inr (y # xs))
      else (case update_first P f xs of Inl e \<Rightarrow> Inl e | Inr ys \<Rightarrow> Inr (x # ys)))"

fun set_field :: "string \<Rightarrow> bson \<Rightarrow> (string \<times> bson) list \<Rightarrow> (string \<times> bson) list" where
  "set_field k v [] = [(k, v)]"
| "set_field k v (p # ps) = (if fst p = k then (k, v) # ps else p # set_field k v ps)"

definition push :: "string \<Rightarrow> bson \<Rightarrow> bson \<Rightarrow> py_error + bson" where
  \<comment> \<open>\<open>$push\<close> appends to an array field, creates the field when it is absent, and fails
      on a field that is not an array.\<close>
  "push f v d =
     (case d of
        BDoc kvs \<Rightarrow>
          (case map_of kvs f of
             None \<Rightarrow> Inr (BDoc (set_field f (BArr [v]) kvs))
           | Some (BArr xs) \<Rightarrow> Inr (BDoc (set_field f (BArr (xs @ [v])) kvs))
           | Some _ \<Rightarrow> Inl WriteError)
      | _ \<Rightarrow> Inl WriteError)"

definition push_dependents_visits :: "bson \<Rightarrow> bson \<Rightarrow> bson \<Rightarrow> py_error + bson" where
  \<comment> \<open>The positional \<open>$\<close> stands for the first element of \<open>dependents\<close> that meets the
      condition of the filter.\<close>
  "push_dependents_visits q v d =
     (case d of
        BDoc kvs \<Rightarrow>
          (case map_of kvs ''dependents'' of
             Some (BArr cs) \<Rightarrow>
               (case update_first (named q) (push ''visits'' v) cs of
                  Inl e \<Rightarrow> Inl e
                | Inr cs' \<Rightarrow> Inr (BDoc (set_field ''dependents'' (BArr cs') kvs)))
           | _ \<Rightarrow> Inl WriteError)
      | _ \<Rightarrow> Inl WriteError)"

fun apply_update :: "mfilter \<Rightarrow> mupdate \<Rightarrow> bson \<Rightarrow> py_error + bson" where
  "apply_update flt (Push f v) d = push f v d"
| "apply_update (IdNumberAndDependentName n q) (PushDependentsVisits v) d =
     push_dependents_visits q v d"
| "apply_update (IdNumber n) (PushDependentsVisits v) d = Inl WriteError"

definition find_one :: "int \<Rightarrow> string \<Rightarrow> store \<Rightarrow> (py_error + bson option) \<times> store" where
  \<comment> \<open>The driver encodes the filter before it sends it, and raises OverflowError for an
      \<open>id_number\<close> outside eight bytes; the store is not reached then.\<close>
  "find_one n proj st =
     (if int64 n
      then (Inr (map_option (project proj) (find (matches_id_number n) (coll st))),
            st\<lparr>calls := calls st @ [Find_one n proj]\<rparr>)
      else (Inl OverflowError, st))"

definition insert_one :: "bson \<Rightarrow> store \<Rightarrow> store" where
  "insert_one d st = st\<lparr>coll := coll st @ [d], calls := calls st @ [Insert_one d]\<rparr>"

definition update_one :: "mfilter \<Rightarrow> mupdate \<Rightarrow> store \<Rightarrow> (py_error + unit) \<times> store" where
  "update_one flt upd st =
     (case update_first (filter_matches flt) (apply_update flt upd) (coll st) of
        Inl e \<Rightarrow> (Inl e, st\<lparr>calls := calls st @ [Update_one flt upd]\<rparr>)
      | Inr c \<Rightarrow> (Inr (), st\<lparr>coll := c, calls := calls st @ [Update_one flt upd]\<rparr>))"

fun is_write :: "store_call \<Rightarrow> bool" where
  "is_write (Find_one n proj) = False"
| "is_write (Insert_one d) = True"
| "is_write (Update_one flt upd) = True"

section \<open>Models of the requests and of the stored entities\<close>

text \<open>
  The pydantic models, as records. A request body is taken after type coercion: its fields
  have the declared types, and validation checks what the models declare beyond the types.
\<close>

record User =
  email :: string
  facility_name :: string
  facility_type :: string

record VisitSearch =
  id_number :: int
  name :: string
  is_child :: bool
  parent_name :: "string option"

record PatientBio =
  name :: string
  age :: real
  gender :: string

record PatientVitals =
  blood_pressure :: string
  weight :: real
  temperature :: real

record TestReport =
  test_name :: string
  test_results :: string

record MedicationDetails =
  medication_name :: string
  medication_dosage :: int
  medication_frequency :: int
  medication_duration :: int
  medication_instructions :: "string option"

record VisitDetails =
  facility_name :: "string option"
  facility_type :: "string option"
  visit_date :: "string option"
  patient_bio :: PatientBio
  visit_vitals :: PatientVitals
  visit_clinical_notes :: string
  visit_labs :: "TestReport list option"
  visit_investigations :: "TestReport list option"
  visit_medication :: "MedicationDetails list option"

record VisitUpload =
  patient_search :: VisitSearch
  visit_details :: VisitDetails

record Child =
  name :: string
  visits :: "VisitDetails list option"

record Patient =
  id_opt :: "string option"
    \<comment> \<open>the field \<open>id\<close>\<close>
  id_number :: int
  name :: string
  dependents :: "Child list option"
  visits :: "VisitDetails list option"

subsection \<open>Validation\<close>

definition get_parent_name :: "string option \<Rightarrow> (string \<rightharpoonup> bson) \<Rightarrow> py_error + string option" where
  \<comment> \<open>\<open>VisitSearch.get_parent_name(cls, parent_name, values)\<close>; the map is \<open>values.data\<close>.\<close>
  "get_parent_name pn data =
     (case data ''is_child'' of
        None \<Rightarrow> Inl (KeyError ''is_child'')
      | Some b \<Rightarrow>
          if b = BBool True \<and> (pn = None \<or> pn = Some ''null'')
          then Inl (ValueError ''Must supply a parent name for a child'')
          else Inr pn)"

definition VisitSearch_data :: "VisitSearch \<Rightarrow> (string \<rightharpoonup> bson)" where
  \<comment> \<open>The fields validated before \<open>parent_name\<close>.\<close>
  "VisitSearch_data p =
     [''id_number'' \<mapsto> BInt (VisitSearch.id_number p),
      ''name'' \<mapsto> BStr (VisitSearch.name p),
      ''is_child'' \<mapsto> BBool (is_child p)]"

definition validate_VisitSearch :: "VisitSearch \<Rightarrow> py_error + VisitSearch" where
  "validate_VisitSearch p =
     (case get_parent_name (parent_name p) (VisitSearch_data p) of
        Inl (ValueError m) \<Rightarrow> Inl (ValidationError [''parent_name''])
      | Inl e \<Rightarrow> Inl e
      | Inr pn \<Rightarrow> Inr (p\<lparr>parent_name := pn\<rparr>))"

definition PatientBio_errors :: "PatientBio \<Rightarrow> string list" where
  \<comment> \<open>\<open>age: float = Field(gt=0.0, lt=120.0)\<close>, \<open>gender: Literal['male', 'female']\<close>\<close>
  "PatientBio_errors b =
     (if 0 < age b \<and> age b < 120 then [] else [''age''])
     @ (if gender b = ''male'' \<or> gender b = ''female'' then [] else [''gender''])"

definition VisitDetails_errors :: "VisitDetails \<Rightarrow> string list" where
  \<comment> \<open>\<open>PatientVitals\<close>, \<open>TestReport\<close> and \<open>MedicationDetails\<close> declare types only.\<close>
  "VisitDetails_errors v = map (\<lambda>l. ''patient_bio.'' @ l) (PatientBio_errors (patient_bio v))"

definition validate_VisitUpload :: "VisitUpload \<Rightarrow> py_error + VisitUpload" where
  \<comment> \<open>The errors of all fields are gathered into one ValidationError.\<close>
  "validate_VisitUpload u =
     (let ds = map (\<lambda>l. ''visit_details.'' @ l) (VisitDetails_errors (visit_details u)) in
      case validate_VisitSearch (patient_search u) of
        Inl (ValidationError ls) \<Rightarrow>
          Inl (ValidationError (map (\<lambda>l. ''patient_search.'' @ l) ls @ ds))
      | Inl e \<Rightarrow> Inl e
      | Inr p \<Rightarrow>
          if ds = [] then Inr (u\<lparr>patient_search := p\<rparr>) else Inl (ValidationError ds))"

subsection \<open>Serialisation: \<open>model_dump\<close>\<close>

definition dump_opt :: "('a \<Rightarrow> bson) \<Rightarrow> 'a option \<Rightarrow> bson" where
  "dump_opt f x = (case x of None \<Rightarrow> BNull | Some y \<Rightarrow> f y)"

definition dump_list :: "('a \<Rightarrow> bson) \<Rightarrow> 'a list \<Rightarrow> bson" where
  "dump_list f xs = BArr (map f xs)"

definition dump_PatientBio :: "PatientBio \<Rightarrow> bson" where
  \<comment> \<open>\<open>serialize_name\<close> puts the name in title case.\<close>
  "dump_PatientBio b =
     BDoc [(''name'', BStr (py_title (PatientBio.name b))),
           (''age'', BNum (age b)),
           (''gender'', BStr (gender b))]"

definition dump_PatientVitals :: "PatientVitals \<Rightarrow> bson" where
  "dump_PatientVitals v =
     BDoc [(''blood_pressure'', BStr (blood_pressure v)),
           (''weight'', BNum (weight v)),
           (''temperature'', BNum (temperature v))]"

definition dump_TestReport :: "TestReport \<Rightarrow> bson" where
  "dump_TestReport t =
     BDoc [(''test_name'', BStr (test_name t)), (''test_results'', BStr (test_results t))]"

definition dump_MedicationDetails :: "MedicationDetails \<Rightarrow> bson" where
  "dump_MedicationDetails m =
     BDoc [(''medication_name'', BStr (medication_name m)),
           (''medication_dosage'', BInt (medication_dosage m)),
           (''medication_frequency'', BInt (medication_frequency m)),
           (''medication_duration'', BInt (medication_duration m)),
           (''medication_instructions'', dump_opt BStr (medication_instructions m))]"

definition dump_VisitDetails :: "VisitDetails \<Rightarrow> bson" where
  "dump_VisitDetails v =
     BDoc [(''facility_name'', dump_opt BStr (VisitDetails.facility_name v)),
           (''facility_type'', dump_opt BStr (VisitDetails.facility_type v)),
           (''visit_date'', dump_opt BStr (visit_date v)),
           (''patient_bio'', dump_PatientBio (patient_bio v)),
           (''visit_vitals'', dump_PatientVitals (visit_vitals v)),
           (''visit_clinical_notes'', BStr (visit_clinical_notes v)),
           (''visit_labs'', dump_opt (dump_list dump_TestReport) (visit_labs v)),
           (''visit_investigations'',
              dump_opt (dump_list dump_TestReport) (visit_investigations v)),
           (''visit_medication'',
              dump_opt (dump_list dump_MedicationDetails) (visit_medication v))]"

definition dump_Child :: "Child \<Rightarrow> bson" where
  "dump_Child c =
     BDoc [(''name'', BStr (Child.name c)),
           (''visits'', dump_opt (dump_list dump_VisitDetails) (Child.visits c))]"

definition dump_Patient :: "Patient \<Rightarrow> bson" where
  "dump_Patient p =
     BDoc [(''id'', dump_opt BStr (id_opt p)),
           (''id_number'', BInt (Patient.id_number p)),
           (''name'', BStr (Patient.name p)),
           (''dependents'', dump_opt (dump_list dump_Child) (dependents p)),
           (''visits'', dump_opt (dump_list dump_VisitDetails) (Patient.visits p))]"

section \<open>The clock\<close>

text \<open>
  \<open>datetime.now().strftime("%a %d %b %Y, %I:%M%p")\<close> in the C locale, from the fields of
  the naive local time that the format reads. The day of the week is computed from the
  date as \<open>datetime.weekday()\<close> does, from the proleptic Gregorian ordinal.
\<close>

record datetime =
  year :: nat
  month :: nat
  day :: nat
  hour :: nat
  minute :: nat

definition is_leap :: "nat \<Rightarrow> bool" where
  "is_leap y = (y mod 4 = 0 \<and> (y mod 100 \<noteq> 0 \<or> y mod 400 = 0))"

definition days_before_year :: "nat \<Rightarrow> nat" where
  "days_before_year y = (let y1 = y - 1 in y1 * 365 + y1 div 4 - y1 div 100 + y1 div 400)"

definition days_before_month :: "nat \<Rightarrow> nat \<Rightarrow> nat" where
  \<comment> \<open>The days of the year before the first day of the month.\<close>
  "days_before_month y m =
     [0, 31, 59, 90, 120, 151, 181, 212, 243, 273, 304, 334] ! (m - 1)
     + (if 2 < m \<and> is_leap y then 1 else 0)"

definition ymd2ord :: "nat \<Rightarrow> nat \<Rightarrow> nat \<Rightarrow> nat" where
  "ymd2ord y m d = days_before_year y + days_before_month y m + d"

definition weekday :: "datetime \<Rightarrow> nat" where
  \<comment> \<open>Monday is 0.\<close>
  "weekday t = (ymd2ord (year t) (month t) (day t) + 6) mod 7"

definition digit :: "nat \<Rightarrow> char" where
  "digit n = ''0123456789'' ! n"

definition dec2 :: "nat \<Rightarrow> string" where
  \<comment> \<open>two digits, zero padded\<close>
  "dec2 n = [digit (n div 10 mod 10), digit (n mod 10)]"

fun dec :: "nat \<Rightarrow> string" where
  "dec n = (if n < 10 then [digit n] else dec (n div 10) @ [digit (n mod 10)])"

declare dec.simps [simp del]

definition day_abbr :: "string list" where
  "day_abbr = [''Mon'', ''Tue'', ''Wed'', ''Thu'', ''Fri'', ''Sat'', ''Sun'']"

definition month_abbr :: "string list" where
  "month_abbr = [''Jan'', ''Feb'', ''Mar'', ''Apr'', ''May'', ''Jun'',
                 ''Jul'', ''Aug'', ''Sep'', ''Oct'', ''Nov'', ''Dec'']"

definition hour12 :: "nat \<Rightarrow> nat" where
  "hour12 h = (if h mod 12 = 0 then 12 else h mod 12)"

definition strftime_visit_date :: "datetime \<Rightarrow> string" where
  \<comment> \<open>\<open>t.strftime("%a %d %b %Y, %I:%M%p")\<close>\<close>
  "strftime_visit_date t =
     day_abbr ! weekday t @ '' '' @ dec2 (day t) @ '' '' @ month_abbr ! (month t - 1)
     @ '' '' @ dec (year t) @ '', '' @ dec2 (hour12 (hour t)) @ '':'' @ dec2 (minute t)
     @ (if hour t < 12 then ''AM'' else ''PM'')"

section \<open>The routes\<close>

subsection \<open>\<open>get_patient\<close>: search for a patient's previous visits\<close>

fun other_facility_visits :: "string \<Rightarrow> bson list \<Rightarrow> py_error + bson list" where
  \<comment> \<open>The loop that gathers \<open>other_facility_visits\<close>.\<close>
  "other_facility_visits fac [] = Inr []"
| "other_facility_visits fac (visit # rest) =
     (case getitem visit ''facility_name'' of
        Inl e \<Rightarrow> Inl e
      | Inr f \<Rightarrow>
          (case other_facility_visits fac rest of
             Inl e \<Rightarrow> Inl e
           | Inr out \<Rightarrow> Inr (if f \<noteq> BStr fac then visit # out else out)))"

definition child_name_matches :: "bson \<Rightarrow> string \<Rightarrow> py_error + bool" where
  \<comment> \<open>\<open>name1_parts == name2_parts\<close> for \<open>child\<close> and \<open>patient.name\<close>\<close>
  "child_name_matches child nm =
     (case getitem child ''name'' of
        Inl e \<Rightarrow> Inl e
      | Inr v \<Rightarrow>
          (case split_method v of
             Inl e \<Rightarrow> Inl e
           | Inr ts \<Rightarrow> Inr (set (map py_lower ts) = name_parts nm)))"

fun search_dependents :: "string \<Rightarrow> string \<Rightarrow> bson list \<Rightarrow> py_error + bson list option" where
  \<comment> \<open>The loop over \<open>patient_db['dependents']\<close>: the visits returned at the first child
      whose name matches, or \<open>None\<close> when the loop runs to its end.\<close>
  "search_dependents fac nm [] = Inr None"
| "search_dependents fac nm (child # rest) =
     (case child_name_matches child nm of
        Inl e \<Rightarrow> Inl e
      | Inr True \<Rightarrow>
          (case getitem child ''visits'' of
             Inl e \<Rightarrow> Inl e
           | Inr vs \<Rightarrow>
               (case py_iter vs of
                  Inl e \<Rightarrow> Inl e
                | Inr xs \<Rightarrow> map_sum (\<lambda>e. e) Some (other_facility_visits fac xs)))
      | Inr False \<Rightarrow> search_dependents fac nm rest)"

definition get_patient :: "User \<Rightarrow> VisitSearch \<Rightarrow> store \<Rightarrow> (py_error + bson list) \<times> store" where
  \<comment> \<open>The result is the list under \<open>'visits'\<close> of the returned dict.\<close>
  "get_patient current_user patient st =
     (if is_child patient then
        (case find_one (VisitSearch.id_number patient) ''dependents'' st of
           (Inl e, st1) \<Rightarrow> (Inl e, st1)
         | (Inr None, st1) \<Rightarrow> (Inr [], st1)
         | (Inr (Some patient_db), st1) \<Rightarrow>
             (case getitem patient_db ''dependents'' of
                Inl e \<Rightarrow> (Inl e, st1)
              | Inr deps \<Rightarrow>
                  (case py_iter deps of
                     Inl e \<Rightarrow> (Inl e, st1)
                   | Inr cs \<Rightarrow>
                       (case search_dependents (User.facility_name current_user)
                               (VisitSearch.name patient) cs of
                          Inl e \<Rightarrow> (Inl e, st1)
                        | Inr (Some out) \<Rightarrow> (Inr out, st1)
                        | Inr None \<Rightarrow> (Inr [], st1)))))
      else
        (case find_one (VisitSearch.id_number patient) ''visits'' st of
           (Inl e, st1) \<Rightarrow> (Inl e, st1)
         | (Inr None, st1) \<Rightarrow> (Inr [], st1)
         | (Inr (Some patient_db), st1) \<Rightarrow>
             (case getitem patient_db ''visits'' of
                Inl e \<Rightarrow> (Inl e, st1)
              | Inr vs \<Rightarrow>
                  (case py_iter vs of
                     Inl e \<Rightarrow> (Inl e, st1)
                   | Inr xs \<Rightarrow>
                       (other_facility_visits (User.facility_name current_user) xs, st1)))))"

subsection \<open>\<open>add_visit\<close>: post a patient's current visit\<close>

definition stamp :: "User \<Rightarrow> datetime \<Rightarrow> VisitDetails \<Rightarrow> VisitDetails" where
  \<comment> \<open>The three assignments to \<open>visit_details\<close> at the head of \<open>add_visit\<close>.\<close>
  "stamp current_user now v =
     v\<lparr>VisitDetails.facility_name := Some (User.facility_name current_user),
       VisitDetails.facility_type := Some (User.facility_type current_user),
       visit_date := Some (strftime_visit_date now)\<rparr>"

definition py_not :: "bson option \<Rightarrow> bool" where
  \<comment> \<open>\<open>not v\<close> for what \<open>find_one\<close> returns: \<open>None\<close> and the empty dict are false.\<close>
  "py_not v = (v = None \<or> v = Some (BDoc []))"

definition new_child :: "VisitSearch \<Rightarrow> VisitDetails \<Rightarrow> Child" where
  \<comment> \<open>\<open>Child(name=patient.name, visits=[visit_details])\<close>\<close>
  "new_child patient v = \<lparr>Child.name = VisitSearch.name patient, Child.visits = Some [v]\<rparr>"

fun find_dependent :: "string \<Rightarrow> bson list \<Rightarrow> py_error + bson option" where
  \<comment> \<open>The loop over \<open>parent_dependents['dependents']\<close> up to its \<open>break\<close>: the
      \<open>child['name']\<close> of the first child whose name matches.\<close>
  "find_dependent nm [] = Inr None"
| "find_dependent nm (child # rest) =
     (case child_name_matches child nm of
        Inl e \<Rightarrow> Inl e
      | Inr True \<Rightarrow> map_sum (\<lambda>e. e) Some (getitem child ''name'')
      | Inr False \<Rightarrow> find_dependent nm rest)"

definition posted :: "(py_error + unit) \<times> store \<Rightarrow> (py_error + string) \<times> store" where
  \<comment> \<open>After the store call: the error raised by it, or the status returned.\<close>
  "posted r =
     (case r of
        (Inl e, st) \<Rightarrow> (Inl e, st)
      | (Inr u, st) \<Rightarrow> (Inr ''Visit posted successfully'', st))"

definition add_visit_child :: "VisitSearch \<Rightarrow> VisitDetails \<Rightarrow> store \<Rightarrow> (py_error + string) \<times> store" where
  \<comment> \<open>The branch \<open>if patient.is_child\<close>.\<close>
  "add_visit_child patient v st =
     (case find_one (VisitSearch.id_number patient) ''id_number'' st of
        (Inl e, st1) \<Rightarrow> (Inl e, st1)
      | (Inr parent_db, st1) \<Rightarrow>
          if py_not parent_db then
            (case parent_name patient of
               None \<Rightarrow> (Inl (ValidationError [''name'']), st1)
             | Some pn \<Rightarrow>
                 posted (Inr (),
                   insert_one
                     (dump_Patient
                        \<lparr>id_opt = None, Patient.id_number = VisitSearch.id_number patient,
                         Patient.name = pn, dependents = Some [new_child patient v],
                         Patient.visits = Some []\<rparr>) st1))
          else
            (case find_one (VisitSearch.id_number patient) ''dependents'' st1 of
               (Inl e, st2) \<Rightarrow> (Inl e, st2)
             | (Inr None, st2) \<Rightarrow> (Inl TypeError, st2)
             | (Inr (Some parent_dependents), st2) \<Rightarrow>
                 (case getitem parent_dependents ''dependents'' of
                    Inl e \<Rightarrow> (Inl e, st2)
                  | Inr deps \<Rightarrow>
                      (case py_len deps of
                         Inl e \<Rightarrow> (Inl e, st2)
                       | Inr n \<Rightarrow>
                           if n = 0 then
                             posted (update_one (IdNumber (VisitSearch.id_number patient))
                                       (Push ''dependents'' (dump_Child (new_child patient v))) st2)
                           else
                             (case py_iter deps of
                                Inl e \<Rightarrow> (Inl e, st2)
                              | Inr cs \<Rightarrow>
                                  (case find_dependent (VisitSearch.name patient) cs of
                                     Inl e \<Rightarrow> (Inl e, st2)
                                   | Inr (Some child_name) \<Rightarrow>
                                       posted (update_one
                                         (IdNumberAndDependentName
                                            (VisitSearch.id_number patient) child_name)
                                         (PushDependentsVisits (dump_VisitDetails v)) st2)
                                   | Inr None \<Rightarrow>
                                       posted (update_one
                                         (IdNumber (VisitSearch.id_number patient))
                                         (Push ''dependents''
                                            (dump_Child (new_child patient v))) st2)))))))"

definition add_visit_adult :: "VisitSearch \<Rightarrow> VisitDetails \<Rightarrow> store \<Rightarrow> (py_error + string) \<times> store" where
  \<comment> \<open>The branch \<open>else\<close>: an adult patient.\<close>
  "add_visit_adult patient v st =
     (case find_one (VisitSearch.id_number patient) ''id_number'' st of
        (Inl e, st1) \<Rightarrow> (Inl e, st1)
      | (Inr patient_db, st1) \<Rightarrow>
          if py_not patient_db then
            posted (Inr (),
              insert_one
                (dump_Patient
                   \<lparr>id_opt = None, Patient.id_number = VisitSearch.id_number patient,
                    Patient.name = VisitSearch.name patient, dependents = Some [],
                    Patient.visits = Some [v]\<rparr>) st1)
          else
            posted (update_one (IdNumber (VisitSearch.id_number patient))
                      (Push ''visits'' (dump_VisitDetails v)) st1))"

definition add_visit :: "User \<Rightarrow> datetime \<Rightarrow> VisitUpload \<Rightarrow> store \<Rightarrow> (py_error + string) \<times> store" where
  \<comment> \<open>\<open>now\<close> is what \<open>datetime.now()\<close> returns during the call.\<close>
  "add_visit current_user now visit st =
     (let patient = patient_search visit;
          v = stamp current_user now (visit_details visit)
      in if is_child patient then add_visit_child patient v st
         else add_visit_adult patient v st)"

subsection \<open>The two operations, with the validation of the request body\<close>

definition searchVisits :: "User \<Rightarrow> VisitSearch \<Rightarrow> store \<Rightarrow> (py_error + bson list) \<times> store" where
  "searchVisits current_user body st =
     (case validate_VisitSearch body of
        Inl e \<Rightarrow> (Inl e, st)
      | Inr patient \<Rightarrow> get_patient current_user patient st)"

definition postVisit :: "User \<Rightarrow> datetime \<Rightarrow> VisitUpload \<Rightarrow> store \<Rightarrow> (py_error + string) \<times> store" where
  "postVisit current_user now body st =
     (case validate_VisitUpload body of
        Inl e \<Rightarrow> (Inl e, st)
      | Inr visit \<Rightarrow> add_visit current_user now visit st)"

section \<open>Stored documents\<close>

text \<open>
  The properties of stored data are stated with the accessors and predicates of this
  section. A collection holds Patient documents when every document has an array
  \<open>dependents\<close> of children, each with a string \<open>name\<close> and an array \<open>visits\<close>, and an array
  \<open>visits\<close>, and every visit has a field \<open>facility_name\<close>.
\<close>

definition elems :: "bson option \<Rightarrow> bson list" where
  "elems v = (case v of Some (BArr xs) \<Rightarrow> xs | _ \<Rightarrow> [])"

definition visits_of :: "bson \<Rightarrow> bson list" where
  "visits_of d = elems (field ''visits'' d)"

definition dependents_of :: "bson \<Rightarrow> bson list" where
  "dependents_of d = elems (field ''dependents'' d)"

definition is_str :: "bson option \<Rightarrow> bool" where
  "is_str v = (case v of Some (BStr s) \<Rightarrow> True | _ \<Rightarrow> False)"

definition array_of :: "(bson \<Rightarrow> bool) \<Rightarrow> bson option \<Rightarrow> bool" where
  "array_of P v = (case v of Some (BArr xs) \<Rightarrow> list_all P xs | _ \<Rightarrow> False)"

definition visit_doc :: "bson \<Rightarrow> bool" where
  "visit_doc v = (field ''facility_name'' v \<noteq> None)"

definition child_doc :: "bson \<Rightarrow> bool" where
  "child_doc c = (is_str (field ''name'' c) \<and> array_of visit_doc (field ''visits'' c))"

definition patient_doc :: "bson \<Rightarrow> bool" where
  "patient_doc d =
     (array_of child_doc (field ''dependents'' d) \<and> array_of visit_doc (field ''visits'' d))"

definition patient_docs :: "store \<Rightarrow> bool" where
  "patient_docs st = list_all patient_doc (coll st)"

definition first_index :: "('a \<Rightarrow> bool) \<Rightarrow> 'a list \<Rightarrow> nat" where
  \<comment> \<open>The position of the first element that meets the condition.\<close>
  "first_index P xs = length (takeWhile (\<lambda>x. \<not> P x) xs)"

definition child_matches :: "string \<Rightarrow> bson \<Rightarrow> bool" where
  \<comment> \<open>The stored child has a name that matches the incoming name.\<close>
  "child_matches nm c =
     (case field ''name'' c of Some (BStr s) \<Rightarrow> names_match s nm | _ \<Rightarrow> False)"

subsection \<open>Resolution and visibility in the words of the specification\<close>

definition spec_resolveForRead :: "VisitSearch \<Rightarrow> bson list \<Rightarrow> bson list option" where
  \<comment> \<open>The ledger a search key resolves to: the visits of the adult with the id number,
      or of the first dependent of that adult whose name matches; none when there is no such
      entity.\<close>
  "spec_resolveForRead key c =
     (case find (matches_id_number (VisitSearch.id_number key)) c of
        None \<Rightarrow> None
      | Some d \<Rightarrow>
          if is_child key
          then map_option visits_of
                 (find (child_matches (VisitSearch.name key)) (dependents_of d))
          else Some (visits_of d))"

definition spec_filterVisible :: "bson list \<Rightarrow> string \<Rightarrow> bson list" where
  \<comment> \<open>Retain every visit whose facility name differs from the requesting facility's.\<close>
  "spec_filterVisible ledger fac =
     filter (\<lambda>v. field ''facility_name'' v \<noteq> Some (BStr fac)) ledger"

subsection \<open>What a write keeps and what it carries\<close>

definition child_kept :: "bson \<Rightarrow> bson \<Rightarrow> bool" where
  \<comment> \<open>The child is the same child and its ledger has only grown at the end.\<close>
  "child_kept c c' =
     (field ''name'' c' = field ''name'' c \<and> prefix (visits_of c) (visits_of c'))"

definition doc_kept :: "bson \<Rightarrow> bson \<Rightarrow> bool" where
  "doc_kept d d' =
     (field ''id_number'' d' = field ''id_number'' d
      \<and> prefix (visits_of d) (visits_of d')
      \<and> length (dependents_of d) \<le> length (dependents_of d')
      \<and> list_all2 child_kept (dependents_of d)
            (take (length (dependents_of d)) (dependents_of d')))"

definition coll_kept :: "bson list \<Rightarrow> bson list \<Rightarrow> bool" where
  \<comment> \<open>Every document is still there, at its place, with every ledger kept.\<close>
  "coll_kept c c' =
     (length c \<le> length c' \<and> list_all2 doc_kept c (take (length c) c'))"

fun appends :: "store_call \<Rightarrow> bool" where
  \<comment> \<open>An insert of a document, or one push onto \<open>visits\<close>, \<open>dependents\<close> or the visits
      of a dependent.\<close>
  "appends (Find_one n proj) = False"
| "appends (Insert_one d) = True"
| "appends (Update_one flt (Push f v)) = (f = ''visits'' \<or> f = ''dependents'')"
| "appends (Update_one flt (PushDependentsVisits v)) = True"

fun stored_visits :: "store_call \<Rightarrow> bson list" where
  \<comment> \<open>The visit records that a call hands to the store.\<close>
  "stored_visits (Find_one n proj) = []"
| "stored_visits (Insert_one d) = visits_of d @ concat (map visits_of (dependents_of d))"
| "stored_visits (Update_one flt (Push f v)) = (if f = ''visits'' then [v] else visits_of v)"
| "stored_visits (Update_one flt (PushDependentsVisits v)) = [v]"

definition new_calls :: "store \<Rightarrow> store \<Rightarrow> store_call list" where
  \<comment> \<open>The calls made between an earlier and a later state.\<close>
  "new_calls st st' = drop (length (calls st)) (calls st')"

inductive reachable :: "store \<Rightarrow> bool" where
  \<comment> \<open>The states of a store that only this system has written to.\<close>
  empty: "reachable \<lparr>coll = [], calls = []\<rparr>"
| post: "reachable st \<Longrightarrow> reachable (snd (postVisit current_user now body st))"
| search: "reachable st \<Longrightarrow> reachable (snd (searchVisits current_user body st))"

definition spec_bp_format :: "string \<Rightarrow> bool" where
  \<comment> \<open>"systolic/diastolic": two numbers with a slash between them.\<close>
  "spec_bp_format s =
     (let a = takeWhile (\<lambda>c. c \<noteq> CHR ''/'') s; b = dropWhile (\<lambda>c. c \<noteq> CHR ''/'') s
      in a \<noteq> [] \<and> list_all (\<lambda>c. c \<in> set ''0123456789'') a
         \<and> (case b of [] \<Rightarrow> False
             | x # r \<Rightarrow> r \<noteq> [] \<and> list_all (\<lambda>c. c \<in> set ''0123456789'') r))"

subsection \<open>The date of a visit, read back\<close>

text \<open>
  The format \<^verbatim>\<open>%a %d %b %Y, %I:%M%p\<close> in the words of its directives: the abbreviated name of
  the day of the week, the day of the month in two digits, the abbreviated name of the month,
  the year in decimal, a comma, the hour of the twelve-hour clock in two digits, a colon, the
  minute in two digits, and AM or PM. \<open>spec_read_visit_date\<close> reads a text of this form back
  into the time it stands for and the day of the week it names (Monday is 0), and reads
  nothing from any other text.
\<close>

definition valid_time :: "datetime \<Rightarrow> bool" where
  \<comment> \<open>The fields of a time of day on a day of a month.\<close>
  "valid_time t =
     (1 \<le> month t \<and> month t \<le> 12 \<and> 1 \<le> day t \<and> day t \<le> 31
      \<and> hour t < 24 \<and> minute t < 60)"

definition spec_day_names :: "string list" where
  "spec_day_names = [''Mon'', ''Tue'', ''Wed'', ''Thu'', ''Fri'', ''Sat'', ''Sun'']"

definition spec_month_names :: "string list" where
  "spec_month_names = [''Jan'', ''Feb'', ''Mar'', ''Apr'', ''May'', ''Jun'',
                       ''Jul'', ''Aug'', ''Sep'', ''Oct'', ''Nov'', ''Dec'']"

definition is_digit :: "char \<Rightarrow> bool" where
  "is_digit c = (c \<in> set ''0123456789'')"

definition digit_value :: "char \<Rightarrow> nat" where
  "digit_value c = (of_char c :: nat) - 48"

definition read_dec :: "string \<Rightarrow> nat" where
  \<comment> \<open>the number that a row of digits writes\<close>
  "read_dec s = foldl (\<lambda>n c. 10 * n + digit_value c) 0 s"

fun index_of :: "'a list \<Rightarrow> 'a \<Rightarrow> nat option" where
  "index_of [] x = None"
| "index_of (y # ys) x = (if x = y then Some 0 else map_option Suc (index_of ys x))"

definition spec_read_visit_date :: "string \<Rightarrow> (datetime \<times> nat) option" where
  "spec_read_visit_date s =
     (let wd = take 3 s; dd = take 2 (drop 4 s); mon = take 3 (drop 7 s);
          yr = takeWhile is_digit (drop 11 s);
          r = drop (11 + length yr) s;
          hh = take 2 (drop 2 r); mm = take 2 (drop 5 r); ap = drop 7 r
      in case index_of spec_day_names wd of
           None \<Rightarrow> None
         | Some w \<Rightarrow>
             (case index_of spec_month_names mon of
                None \<Rightarrow> None
              | Some m \<Rightarrow>
                  if take 1 (drop 3 s) = '' '' \<and> take 1 (drop 6 s) = '' ''
                     \<and> take 1 (drop 10 s) = '' '' \<and> take 2 r = '', ''
                     \<and> take 1 (drop 4 r) = '':''
                     \<and> length dd = 2 \<and> length hh = 2 \<and> length mm = 2 \<and> yr \<noteq> []
                     \<and> list_all is_digit (dd @ hh @ mm)
                     \<and> 1 \<le> read_dec hh \<and> read_dec hh \<le> 12
                     \<and> (ap = ''AM'' \<or> ap = ''PM'')
                  then Some (\<lparr>year = read_dec yr, month = m + 1, day = read_dec dd,
                              hour = read_dec hh mod 12 + (if ap = ''PM'' then 12 else 0),
                              minute = read_dec mm\<rparr>, w)
                  else None))"

section \<open>One request as store calls\<close>

text \<open>
  The write path is summed up by what it asks of the store: some reads, and then at most one
  call that writes. \<open>run_call\<close> is the effect of one call on the collection, and
  \<open>write_after\<close> is a route that has made the given reads and ends with the given write.
\<close>

fun run_call :: "store_call \<Rightarrow> bson list \<Rightarrow> py_error + bson list" where
  "run_call (Find_one n proj) c = Inr c"
| "run_call (Insert_one d) c = Inr (c @ [d])"
| "run_call (Update_one flt upd) c =
     update_first (filter_matches flt) (apply_update flt upd) c"

definition write_after :: "store_call list \<Rightarrow> store_call \<Rightarrow> store \<Rightarrow> (py_error + string) \<times> store" where
  "write_after reads w st =
     (case run_call w (coll st) of
        Inl e \<Rightarrow> (Inl e, st\<lparr>calls := calls st @ reads @ [w]\<rparr>)
      | Inr c \<Rightarrow>
          (Inr ''Visit posted successfully'', st\<lparr>coll := c, calls := calls st @ reads @ [w]\<rparr>))"

fun carries_docs :: "store_call \<Rightarrow> bool" where
  \<comment> \<open>What the call hands to the store is a Patient document, a child or a visit, for
      the place it goes to.\<close>
  "carries_docs (Find_one n proj) = False"
| "carries_docs (Insert_one d) = patient_doc d"
| "carries_docs (Update_one flt (Push f v)) =
     (f = ''visits'' \<and> visit_doc v \<or> f = ''dependents'' \<and> child_doc v)"
| "carries_docs (Update_one (IdNumberAndDependentName n q) (PushDependentsVisits v)) =
     visit_doc v"
| "carries_docs (Update_one (IdNumber n) (PushDependentsVisits v)) = False"

definition reads_then_one_append :: "bson \<Rightarrow> store \<Rightarrow> (py_error + string) \<times> store \<Rightarrow> bool" where
  \<comment> \<open>The result \<open>R\<close> of a request on \<open>st\<close>: reads, and then an error before any write, or
      one appending write that hands over the visit \<open>v\<close> and no other.\<close>
  "reads_then_one_append v st R =
     (\<exists>reads. list_all (\<lambda>c. \<not> is_write c) reads \<and>
        ((\<exists>e. R = (Inl e, st\<lparr>calls := calls st @ reads\<rparr>))
         \<or> (\<exists>w. appends w \<and> carries_docs w \<and> stored_visits w = [v]
                \<and> R = write_after reads w st)))"

definition store_ok :: "store \<Rightarrow> bool" where
  \<comment> \<open>The collection holds Patient documents, and so did every insert.\<close>
  "store_ok st =
     (patient_docs st \<and> (\<forall>d. Insert_one d \<in> set (calls st) \<longrightarrow> patient_doc d))"

section \<open>Requests and stores used as examples\<close>

text \<open>
  Two facilities, a child and her parent. The first visit is posted by FacilityA for
  "Amina Wanjiru" to an empty store; later requests name the child "Wanjiru Amina".
\<close>

definition facility_a :: User where
  "facility_a =
     \<lparr>email = ''records@facility-a.example'', User.facility_name = ''FacilityA'',
      User.facility_type = ''Hospital''\<rparr>"

definition facility_b :: User where
  "facility_b =
     \<lparr>email = ''records@facility-b.example'', User.facility_name = ''FacilityB'',
      User.facility_type = ''Clinic''\<rparr>"

definition clinic_time :: datetime where
  "clinic_time = \<lparr>year = 2024, month = 7, day = 16, hour = 15, minute = 51\<rparr>"

definition amina_details :: VisitDetails where
  "amina_details =
     \<lparr>VisitDetails.facility_name = Some ''Somewhere Else'',
      VisitDetails.facility_type = None,
      visit_date = Some ''yesterday'',
      patient_bio = \<lparr>PatientBio.name = ''amina wanjiru'', age = 4, gender = ''female''\<rparr>,
      visit_vitals = \<lparr>blood_pressure = ''95/60'', weight = 16, temperature = 37\<rparr>,
      visit_clinical_notes = ''Cough for three days'',
      visit_labs = None, visit_investigations = None, visit_medication = None\<rparr>"

definition amina_key :: VisitSearch where
  "amina_key =
     \<lparr>VisitSearch.id_number = 12341234, VisitSearch.name = ''Amina Wanjiru'',
      is_child = True, parent_name = Some ''Mary Wanjiru''\<rparr>"

definition wanjiru_key :: VisitSearch where
  "wanjiru_key = amina_key\<lparr>VisitSearch.name := ''Wanjiru Amina''\<rparr>"



definition unnamed_parent_key :: VisitSearch where
  "unnamed_parent_key = amina_key\<lparr>parent_name := Some ''''\<rparr>"

definition orphan_key :: VisitSearch where
  "orphan_key = amina_key\<lparr>parent_name := None\<rparr>"

definition amina_upload :: VisitUpload where
  "amina_upload = \<lparr>patient_search = amina_key, visit_details = amina_details\<rparr>"

definition wanjiru_upload :: VisitUpload where
  "wanjiru_upload = \<lparr>patient_search = wanjiru_key, visit_details = amina_details\<rparr>"

definition free_text_upload :: VisitUpload where
  "free_text_upload =
     \<lparr>patient_search = amina_key,
      visit_details = amina_details
        \<lparr>visit_vitals := \<lparr>blood_pressure = ''abc'', weight = 16, temperature = 37\<rparr>\<rparr>\<rparr>"

definition v1 :: bson where
  "v1 = dump_VisitDetails (stamp facility_a clinic_time amina_details)"

definition v2 :: bson where
  "v2 = dump_VisitDetails (stamp facility_b clinic_time amina_details)"

definition amina_child :: bson where
  "amina_child = BDoc [(''name'', BStr ''Amina Wanjiru''), (''visits'', BArr [v1])]"

definition amina_parent :: bson where
  "amina_parent =
     BDoc [(''id'', BNull), (''id_number'', BInt 12341234), (''name'', BStr ''Mary Wanjiru''),
           (''dependents'', BArr [amina_child]), (''visits'', BArr [])]"

definition empty_store :: store where
  "empty_store = \<lparr>coll = [], calls = []\<rparr>"


definition amina_store :: store where
  "amina_store = snd (postVisit facility_a clinic_time amina_upload empty_store)"

section \<open>Properties of the string functions\<close>






lemma spec_split_on_ws_ne: "spec_split_on_ws s \<noteq> []"
  by (induction s) (auto split: list.splits)











section \<open>Properties of the store calls\<close>

lemma map_of_set_field: "map_of (set_field k v kvs) = (map_of kvs)(k \<mapsto> v)"
  by (induction kvs) (auto simp: fun_eq_iff)

lemma map_of_project: "map_of (filter (\<lambda>kv. fst kv = f) kvs) f = map_of kvs f"
  by (induction kvs) auto

lemma posted_update_one:
  "posted (update_one flt upd (st\<lparr>calls := calls st @ reads\<rparr>))
     = write_after reads (Update_one flt upd) st"
  by (simp add: posted_def update_one_def write_after_def split: sum.splits)

lemma posted_insert_one:
  "posted (Inr (), insert_one d (st\<lparr>calls := calls st @ reads\<rparr>))
     = write_after reads (Insert_one d) st"
  by (simp add: posted_def insert_one_def write_after_def)

lemma rtoa_error:
  "list_all (\<lambda>c. \<not> is_write c) reads \<Longrightarrow>
   reads_then_one_append v st (Inl e, st\<lparr>calls := calls st @ reads\<rparr>)"
  unfolding reads_then_one_append_def by blast

lemma rtoa_error0: "reads_then_one_append v st (Inl e, st)"
  using rtoa_error [of "[]" v st e] by simp

lemma rtoa_write:
  "list_all (\<lambda>c. \<not> is_write c) reads \<Longrightarrow> appends w \<Longrightarrow> carries_docs w \<Longrightarrow>
   stored_visits w = [v] \<Longrightarrow>
   reads_then_one_append v st (write_after reads w st)"
  unfolding reads_then_one_append_def by blast

lemma visits_of_dump_Child:
  "visits_of (dump_Child c)
     = (case Child.visits c of None \<Rightarrow> [] | Some vs \<Rightarrow> map dump_VisitDetails vs)"
  by (simp add: dump_Child_def dump_opt_def dump_list_def visits_of_def elems_def
      split: option.splits)

lemma visits_of_dump_Patient:
  "visits_of (dump_Patient q)
     = (case Patient.visits q of None \<Rightarrow> [] | Some vs \<Rightarrow> map dump_VisitDetails vs)"
  by (simp add: dump_Patient_def dump_opt_def dump_list_def visits_of_def elems_def
      split: option.splits)

lemma dependents_of_dump_Patient:
  "dependents_of (dump_Patient q)
     = (case dependents q of None \<Rightarrow> [] | Some cs \<Rightarrow> map dump_Child cs)"
  by (simp add: dump_Patient_def dump_opt_def dump_list_def dependents_of_def elems_def
      split: option.splits)

lemma visit_doc_dump: "visit_doc (dump_VisitDetails v)"
  by (simp add: visit_doc_def dump_VisitDetails_def)

lemma child_doc_dump_new: "child_doc (dump_Child (new_child p v))"
  by (simp add: child_doc_def dump_Child_def new_child_def is_str_def array_of_def
      dump_opt_def dump_list_def visit_doc_dump)

lemma patient_doc_dump_new:
  "patient_doc (dump_Patient
      \<lparr>id_opt = None, Patient.id_number = n, Patient.name = pn,
       dependents = Some [new_child p v], Patient.visits = Some []\<rparr>)"
  "patient_doc (dump_Patient
      \<lparr>id_opt = None, Patient.id_number = n, Patient.name = pn,
       dependents = Some [], Patient.visits = Some [v]\<rparr>)"
  by (simp_all add: patient_doc_def dump_Patient_def array_of_def dump_opt_def dump_list_def
      visit_doc_dump child_doc_dump_new)

lemmas dump_docs = visit_doc_dump child_doc_dump_new patient_doc_dump_new

lemma visits_of_new_child: "visits_of (dump_Child (new_child p v)) = [dump_VisitDetails v]"
  by (simp add: visits_of_dump_Child new_child_def)

lemmas dump_ledgers =
  visits_of_new_child visits_of_dump_Patient dependents_of_dump_Patient

lemma add_visit_child_rtoa:
  "reads_then_one_append (dump_VisitDetails v) st (add_visit_child p v st)"
  unfolding add_visit_child_def find_one_def
  by (auto simp: posted_update_one [of _ _ st "[a, b]" for a b, simplified]
        posted_insert_one [of _ st "[a]" for a, simplified]
        dump_ledgers dump_docs
      split: option.splits sum.splits bool.splits if_splits
      intro!: rtoa_error [of "[a, b]" for a b, simplified] rtoa_error [of "[a]" for a, simplified]
        rtoa_error0
        rtoa_write [of "[a, b]" for a b, simplified] rtoa_write [of "[a]" for a, simplified])

lemma add_visit_adult_rtoa:
  "reads_then_one_append (dump_VisitDetails v) st (add_visit_adult p v st)"
  unfolding add_visit_adult_def find_one_def
  by (auto simp: posted_update_one [of _ _ st "[a]" for a, simplified]
        posted_insert_one [of _ st "[a]" for a, simplified]
        dump_ledgers dump_docs
      split: option.splits sum.splits bool.splits if_splits
      intro!: rtoa_error0 rtoa_write [of "[a]" for a, simplified])

lemma update_first_length:
  "update_first P f xs = Inr ys \<Longrightarrow> length ys = length xs"
  by (induction xs arbitrary: ys) (auto split: if_splits sum.splits)

lemma update_first_rel:
  assumes "update_first P f xs = Inr ys"
    and "\<And>x y. P x \<Longrightarrow> f x = Inr y \<Longrightarrow> R x y"
    and "\<And>x. R x x"
  shows "list_all2 R xs ys"
  using assms(1)
proof (induction xs arbitrary: ys)
  case Nil
  then show ?case by simp
next
  case (Cons x xs)
  show ?case
  proof (cases "P x")
    case True
    with Cons.prems obtain y where "f x = Inr y" "ys = y # xs"
      by (auto split: sum.splits)
    with True assms(2,3) show ?thesis
      by (simp add: list_all2_refl)
  next
    case False
    with Cons.prems obtain zs where "update_first P f xs = Inr zs" "ys = x # zs"
      by (auto split: sum.splits)
    with Cons.IH assms(3) show ?thesis by simp
  qed
qed

lemma update_first_all:
  assumes "update_first P f xs = Inr ys" and "list_all Q xs"
    and "\<And>x y. P x \<Longrightarrow> Q x \<Longrightarrow> f x = Inr y \<Longrightarrow> Q y"
  shows "list_all Q ys"
  using assms(1,2)
proof (induction xs arbitrary: ys)
  case Nil
  then show ?case by simp
next
  case (Cons x xs)
  then show ?case
    by (auto split: if_splits sum.splits intro: assms(3))
qed


lemma update_first_none:
  "find P xs = None \<Longrightarrow> update_first P f xs = Inr xs"
  by (induction xs) (auto split: if_splits)

lemma find_first_index:
  "find P xs = Some x \<Longrightarrow> first_index P xs < length xs \<and> xs ! first_index P xs = x"
  by (induction xs) (auto simp: first_index_def split: if_splits)

lemma find_cong_set:
  "(\<And>x. x \<in> set xs \<Longrightarrow> P x = Q x) \<Longrightarrow> find P xs = find Q xs"
  by (induction xs) auto

lemma first_index_cong_set:
  "(\<And>x. x \<in> set xs \<Longrightarrow> P x = Q x) \<Longrightarrow> first_index P xs = first_index Q xs"
  unfolding first_index_def by (induction xs) auto

lemma find_Some_set: "find P xs = Some x \<Longrightarrow> x \<in> set xs \<and> P x"
  by (induction xs) (auto split: if_splits)

lemma push_field:
  assumes "push f v d = Inr d'"
  shows "field g d' = (if g = f then Some (BArr (elems (field f d) @ [v])) else field g d)"
proof -
  from assms obtain kvs where d: "d = BDoc kvs"
    by (cases d) (simp_all add: push_def)
  show ?thesis
  proof (cases "map_of kvs f")
    case None
    with assms d show ?thesis
      by (auto simp: push_def map_of_set_field elems_def)
  next
    case (Some x)
    with assms d obtain xs where "x = BArr xs"
      by (cases x) (simp_all add: push_def)
    with Some assms d show ?thesis
      by (auto simp: push_def map_of_set_field elems_def)
  qed
qed

lemma push_dependents_visits_field:
  assumes "push_dependents_visits q v d = Inr d'"
  shows "\<exists>cs cs'. field ''dependents'' d = Some (BArr cs)
           \<and> update_first (named q) (push ''visits'' v) cs = Inr cs'
           \<and> (\<forall>g. field g d' = (if g = ''dependents'' then Some (BArr cs') else field g d))"
proof -
  from assms obtain kvs where d: "d = BDoc kvs"
    by (cases d) (simp_all add: push_dependents_visits_def)
  from assms d obtain x where x: "map_of kvs ''dependents'' = Some x"
    by (cases "map_of kvs ''dependents''") (simp_all add: push_dependents_visits_def)
  with assms d obtain cs where cs: "x = BArr cs"
    by (cases x) (simp_all add: push_dependents_visits_def)
  with assms d x obtain cs' where "update_first (named q) (push ''visits'' v) cs = Inr cs'"
    "d' = BDoc (set_field ''dependents'' (BArr cs') kvs)"
    by (auto simp: push_dependents_visits_def split: sum.splits)
  with d x cs show ?thesis
    by (auto simp: map_of_set_field)
qed

lemma elems_arr: "elems (Some (BArr xs)) = xs"
  by (simp add: elems_def)

lemma child_kept_refl: "child_kept c c"
  by (simp add: child_kept_def)

lemma doc_kept_refl: "doc_kept d d"
  by (simp add: doc_kept_def list_all2_refl child_kept_refl)

lemma push_visits_child_kept: "push ''visits'' v c = Inr c' \<Longrightarrow> child_kept c c'"
  by (simp add: child_kept_def visits_of_def push_field elems_arr)

lemma push_visits_doc_kept: "push ''visits'' v d = Inr d' \<Longrightarrow> doc_kept d d'"
  by (simp add: doc_kept_def visits_of_def dependents_of_def push_field
      list_all2_refl child_kept_refl elems_arr)

lemma push_dependents_doc_kept: "push ''dependents'' v d = Inr d' \<Longrightarrow> doc_kept d d'"
  by (simp add: doc_kept_def visits_of_def dependents_of_def push_field
      list_all2_refl child_kept_refl elems_arr)

lemma push_dependents_visits_doc_kept:
  assumes "push_dependents_visits q v d = Inr d'"
  shows "doc_kept d d'"
proof -
  from push_dependents_visits_field [OF assms] obtain cs cs' where
    cs: "field ''dependents'' d = Some (BArr cs)"
    and u: "update_first (named q) (push ''visits'' v) cs = Inr cs'"
    and f: "\<And>g. field g d' = (if g = ''dependents'' then Some (BArr cs') else field g d)"
    by blast
  have "list_all2 child_kept cs cs'"
    using u by (rule update_first_rel) (simp_all add: push_visits_child_kept child_kept_refl)
  moreover have "length cs' = length cs"
    using u by (rule update_first_length)
  ultimately show ?thesis
    by (simp add: doc_kept_def visits_of_def dependents_of_def f cs elems_arr)
qed

lemma apply_update_doc_kept:
  assumes "appends (Update_one flt upd)" and "apply_update flt upd d = Inr d'"
  shows "doc_kept d d'"
proof (cases upd)
  case (Push f v)
  with assms show ?thesis
    by (auto simp: push_visits_doc_kept push_dependents_doc_kept)
next
  case (PushDependentsVisits v)
  with assms show ?thesis
    by (cases flt) (simp_all add: push_dependents_visits_doc_kept)
qed

lemma run_call_kept:
  assumes "appends w" and "run_call w c = Inr c'"
  shows "coll_kept c c'"
proof (cases w)
  case (Find_one n proj)
  with assms show ?thesis by simp
next
  case (Insert_one d)
  with assms show ?thesis
    by (auto simp: coll_kept_def list_all2_refl doc_kept_refl)
next
  case (Update_one flt upd)
  with assms have u: "update_first (filter_matches flt) (apply_update flt upd) c = Inr c'"
    by simp
  have "list_all2 doc_kept c c'"
    using u
  proof (rule update_first_rel)
    fix x y
    assume "apply_update flt upd x = Inr y"
    with assms(1) Update_one show "doc_kept x y"
      by (simp add: apply_update_doc_kept)
  qed (rule doc_kept_refl)
  moreover have "length c' = length c"
    using u by (rule update_first_length)
  ultimately show ?thesis
    by (simp add: coll_kept_def)
qed

lemma coll_kept_refl: "coll_kept c c"
  by (simp add: coll_kept_def list_all2_refl doc_kept_refl)

lemma not_write_stored: "\<not> is_write c \<Longrightarrow> stored_visits c = []"
  by (cases c) simp_all

lemma reads_stored:
  "list_all (\<lambda>c. \<not> is_write c) reads \<Longrightarrow> concat (map stored_visits reads) = []"
  by (induction reads) (simp_all add: not_write_stored)

lemma reads_filter:
  "list_all (\<lambda>c. \<not> is_write c) reads \<Longrightarrow> filter is_write reads = []"
  by (induction reads) simp_all

lemma appends_is_write: "appends w \<Longrightarrow> is_write w"
  by (cases w) simp_all

lemma rtoa_cases:
  assumes "reads_then_one_append v st R"
  obtains (read_fails) reads e where
      "list_all (\<lambda>c. \<not> is_write c) reads"
      "R = (Inl e, st\<lparr>calls := calls st @ reads\<rparr>)"
  | (write_fails) reads w e where
      "list_all (\<lambda>c. \<not> is_write c) reads" "appends w" "stored_visits w = [v]"
      "carries_docs w" "run_call w (coll st) = Inl e"
      "R = (Inl e, st\<lparr>calls := calls st @ reads @ [w]\<rparr>)"
  | (written) reads w c where
      "list_all (\<lambda>c. \<not> is_write c) reads" "appends w" "stored_visits w = [v]"
      "carries_docs w" "run_call w (coll st) = Inr c"
      "R = (Inr ''Visit posted successfully'',
            st\<lparr>coll := c, calls := calls st @ reads @ [w]\<rparr>)"
proof -
  from assms obtain reads where r: "list_all (\<lambda>c. \<not> is_write c) reads"
    and d: "(\<exists>e. R = (Inl e, st\<lparr>calls := calls st @ reads\<rparr>))
         \<or> (\<exists>w. appends w \<and> carries_docs w \<and> stored_visits w = [v]
                \<and> R = write_after reads w st)"
    unfolding reads_then_one_append_def by blast
  from d show thesis
  proof
    assume "\<exists>e. R = (Inl e, st\<lparr>calls := calls st @ reads\<rparr>)"
    with r read_fails show thesis by blast
  next
    assume "\<exists>w. appends w \<and> carries_docs w \<and> stored_visits w = [v]
                \<and> R = write_after reads w st"
    then obtain w where w: "appends w" "stored_visits w = [v]" "R = write_after reads w st"
      "carries_docs w"
      by blast
    show thesis
    proof (cases "run_call w (coll st)")
      case (Inl e)
      with w have "R = (Inl e, st\<lparr>calls := calls st @ reads @ [w]\<rparr>)"
        by (simp add: write_after_def)
      with r w Inl write_fails show thesis by blast
    next
      case (Inr c)
      with w have "R = (Inr ''Visit posted successfully'',
                        st\<lparr>coll := c, calls := calls st @ reads @ [w]\<rparr>)"
        by (simp add: write_after_def)
      with r w Inr written show thesis by blast
    qed
  qed
qed

lemma rtoa_kept:
  assumes "reads_then_one_append v st R"
  shows "coll_kept (coll st) (coll (snd R))"
  using assms
  by (cases rule: rtoa_cases) (simp_all add: coll_kept_refl run_call_kept)

lemma rtoa_error_unchanged:
  assumes "reads_then_one_append v st R" and "fst R = Inl e"
  shows "coll (snd R) = coll st \<and> length (filter is_write (new_calls st (snd R))) \<le> 1"
  using assms
  by (cases rule: rtoa_cases) (simp_all add: new_calls_def reads_filter)

lemma rtoa_success:
  assumes "reads_then_one_append v st R" and "fst R = Inr s"
  shows "\<exists>w. filter is_write (new_calls st (snd R)) = [w] \<and> appends w
           \<and> run_call w (coll st) = Inr (coll (snd R))
           \<and> concat (map stored_visits (new_calls st (snd R))) = [v]"
  using assms
  by (cases rule: rtoa_cases)
    (simp_all add: new_calls_def reads_filter reads_stored appends_is_write)

lemma rtoa_stored:
  assumes "reads_then_one_append v st R"
  shows "set (concat (map stored_visits (new_calls st (snd R)))) \<subseteq> {v}"
  using assms
  by (cases rule: rtoa_cases) (simp_all add: new_calls_def reads_stored)

lemma add_visit_rtoa:
  "reads_then_one_append
     (dump_VisitDetails (stamp current_user now (visit_details visit))) st
     (add_visit current_user now visit st)"
  by (simp add: add_visit_def Let_def add_visit_child_rtoa add_visit_adult_rtoa)

section \<open>The stamped record and the clock\<close>

lemma field_dump_VisitDetails:
  "field ''facility_name'' (dump_VisitDetails v) = Some (dump_opt BStr (VisitDetails.facility_name v))"
  "field ''facility_type'' (dump_VisitDetails v) = Some (dump_opt BStr (VisitDetails.facility_type v))"
  "field ''visit_date'' (dump_VisitDetails v) = Some (dump_opt BStr (visit_date v))"
  by (simp_all add: dump_VisitDetails_def)

lemma stamp_overwrites:
  "stamp current_user now
     (v\<lparr>VisitDetails.facility_name := a, VisitDetails.facility_type := b, visit_date := c\<rparr>)
   = stamp current_user now v"
  by (simp add: stamp_def)

lemma field_stamped:
  "field ''facility_name'' (dump_VisitDetails (stamp current_user now v))
     = Some (BStr (User.facility_name current_user))"
  "field ''facility_type'' (dump_VisitDetails (stamp current_user now v))
     = Some (BStr (User.facility_type current_user))"
  "field ''visit_date'' (dump_VisitDetails (stamp current_user now v))
     = Some (BStr (strftime_visit_date now))"
  by (simp_all add: field_dump_VisitDetails stamp_def dump_opt_def)

lemmas clock_defs = strftime_visit_date_def weekday_def ymd2ord_def days_before_year_def
  days_before_month_def is_leap_def dec2_def digit_def hour12_def
  day_abbr_def month_abbr_def dec.simps

lemma strftime_example:
  "strftime_visit_date \<lparr>year = 2024, month = 7, day = 16, hour = 15, minute = 51\<rparr>
     = ''Tue 16 Jul 2024, 03:51PM''"
  by (simp add: clock_defs)

lemma below_10_cases:
  assumes "k < (10::nat)"
  obtains "k = 0" | "k = 1" | "k = 2" | "k = 3" | "k = 4"
    | "k = 5" | "k = 6" | "k = 7" | "k = 8" | "k = 9"
  using assms by atomize_elim arith

lemma below_7_cases:
  assumes "k < (7::nat)"
  obtains "k = 0" | "k = 1" | "k = 2" | "k = 3" | "k = 4" | "k = 5" | "k = 6"
  using assms by atomize_elim arith

lemma below_12_cases:
  assumes "k < (12::nat)"
  obtains "k = 0" | "k = 1" | "k = 2" | "k = 3" | "k = 4" | "k = 5" | "k = 6"
    | "k = 7" | "k = 8" | "k = 9" | "k = 10" | "k = 11"
  using assms by atomize_elim arith

lemma digit_read:
  assumes "k < 10"
  shows "is_digit (digit k) \<and> digit_value (digit k) = k"
  using assms
  by (cases rule: below_10_cases) (simp_all add: is_digit_def digit_value_def digit_def)

lemma read_dec_snoc: "read_dec (s @ [c]) = 10 * read_dec s + digit_value c"
  by (simp add: read_dec_def)

lemma dec2_read:
  assumes "n < 100"
  shows "length (dec2 n) = 2 \<and> list_all is_digit (dec2 n) \<and> read_dec (dec2 n) = n"
proof -
  have a: "n div 10 mod 10 < 10" and b: "n mod 10 < 10" by simp_all
  from assms have "n div 10 mod 10 = n div 10" by simp
  then have "10 * (n div 10 mod 10) + n mod 10 = n" by simp
  with digit_read [OF a] digit_read [OF b] show ?thesis
    by (simp add: dec2_def read_dec_def)
qed

lemma dec_read: "list_all is_digit (dec n) \<and> dec n \<noteq> [] \<and> read_dec (dec n) = n"
proof (induction n rule: dec.induct)
  case (1 n)
  show ?case
  proof (cases "n < 10")
    case True
    with digit_read [of n] show ?thesis
      by (simp add: dec.simps [of n] read_dec_def)
  next
    case False
    have b: "n mod 10 < 10" by simp
    from 1 [OF False] digit_read [OF b] False show ?thesis
      by (simp add: dec.simps [of n] read_dec_snoc)
  qed
qed

lemma day_name_read:
  assumes "i < 7"
  shows "length (day_abbr ! i) = 3 \<and> index_of spec_day_names (day_abbr ! i) = Some i"
  using assms
  by (cases rule: below_7_cases) (simp_all add: day_abbr_def spec_day_names_def)

lemma month_name_read:
  assumes "i < 12"
  shows "length (month_abbr ! i) = 3 \<and> index_of spec_month_names (month_abbr ! i) = Some i"
  using assms
  by (cases rule: below_12_cases) (simp_all add: month_abbr_def spec_month_names_def)

lemma takeWhile_all_append:
  "list_all P xs \<Longrightarrow> takeWhile P (xs @ ys) = xs @ takeWhile P ys"
  by (induction xs) simp_all

lemma read_shape:
  assumes "length w = 3" "length d = 2" "length m = 3" "list_all is_digit y"
    "length h = 2" "length n = 2"
  shows "spec_read_visit_date
           (w @ '' '' @ d @ '' '' @ m @ '' '' @ y @ '', '' @ h @ '':'' @ n @ ap)
         = (case index_of spec_day_names w of
              None \<Rightarrow> None
            | Some a \<Rightarrow>
                (case index_of spec_month_names m of
                   None \<Rightarrow> None
                 | Some b \<Rightarrow>
                     if y \<noteq> [] \<and> list_all is_digit (d @ h @ n)
                        \<and> 1 \<le> read_dec h \<and> read_dec h \<le> 12 \<and> (ap = ''AM'' \<or> ap = ''PM'')
                     then Some (\<lparr>year = read_dec y, month = b + 1, day = read_dec d,
                                 hour = read_dec h mod 12 + (if ap = ''PM'' then 12 else 0),
                                 minute = read_dec n\<rparr>, a)
                     else None))"
proof -
  from assms(1) obtain w1 w2 w3 where w: "w = [w1, w2, w3]"
    by (auto simp: length_Suc_conv numeral_3_eq_3)
  from assms(2) obtain d1 d2 where d: "d = [d1, d2]"
    by (auto simp: length_Suc_conv numeral_2_eq_2)
  from assms(3) obtain m1 m2 m3 where m: "m = [m1, m2, m3]"
    by (auto simp: length_Suc_conv numeral_3_eq_3)
  from assms(5) obtain h1 h2 where h: "h = [h1, h2]"
    by (auto simp: length_Suc_conv numeral_2_eq_2)
  from assms(6) obtain n1 n2 where n: "n = [n1, n2]"
    by (auto simp: length_Suc_conv numeral_2_eq_2)
  let ?r = "CHR '','' # CHR '' '' # h1 # h2 # CHR '':'' # n1 # n2 # ap"
  let ?s = "w1 # w2 # w3 # CHR '' '' # d1 # d2 # CHR '' '' # m1 # m2 # m3 # CHR '' ''
              # y @ ?r"
  have s: "w @ '' '' @ d @ '' '' @ m @ '' '' @ y @ '', '' @ h @ '':'' @ n @ ap = ?s"
    by (simp add: w d m h n)
  have c: "\<not> is_digit CHR '',''" by (simp add: is_digit_def)
  have y: "takeWhile is_digit (drop 11 ?s) = y"
    using assms(4) c by (simp add: takeWhile_all_append)
  have "drop (11 + length y) ?s = drop (length y) (drop 11 ?s)"
    by (simp only: drop_drop add.commute)
  then have r: "drop (11 + length y) ?s = ?r"
    by simp
  have parts: "take 3 ?s = w" "take 2 (drop 4 ?s) = d" "take 3 (drop 7 ?s) = m"
    "take 1 (drop 3 ?s) = '' ''" "take 1 (drop 6 ?s) = '' ''" "take 1 (drop 10 ?s) = '' ''"
    by (simp_all add: w d m)
  have rest: "take 2 ?r = '', ''" "take 2 (drop 2 ?r) = h" "take 1 (drop 4 ?r) = '':''"
    "take 2 (drop 5 ?r) = n" "drop 7 ?r = ap"
    by (simp_all add: h n)
  have l: "length d = 2" "length h = 2" "length n = 2"
    by (simp_all add: d h n)
  show ?thesis
    unfolding s spec_read_visit_date_def Let_def y r parts rest l
    by (simp split: option.splits)
qed

lemma strftime_read:
  assumes "valid_time t"
  shows "spec_read_visit_date (strftime_visit_date t) = Some (t, weekday t)"
proof -
  from assms have v: "1 \<le> month t" "month t \<le> 12" "1 \<le> day t" "day t \<le> 31"
    "hour t < 24" "minute t < 60"
    by (simp_all add: valid_time_def)
  have wd: "weekday t < 7" by (simp add: weekday_def)
  note w = day_name_read [OF wd]
  from v have "month t - 1 < 12" by simp
  note m = month_name_read [OF this]
  from v have "day t < 100" by simp
  note d = dec2_read [OF this]
  have "hour t mod 12 < 12" by simp
  then have hr: "hour12 (hour t) < 100" "1 \<le> hour12 (hour t)" "hour12 (hour t) \<le> 12"
    by (auto simp: hour12_def)
  note h = dec2_read [OF hr(1)]
  from v have "minute t < 100" by simp
  note n = dec2_read [OF this]
  note y = dec_read [of "year t"]
  have hm: "hour t mod 12 = (if hour t < 12 then hour t else hour t - 12)"
    using v(5) by (simp add: mod_if)
  have hh: "hour12 (hour t) mod 12 + (if hour t < 12 then 0 else 12) = hour t"
  proof (cases "hour t < 12")
    case True
    then show ?thesis by (simp add: hour12_def)
  next
    case False
    with v(5) have "hour t - 12 < 12" "12 \<le> hour t" by simp_all
    with False show ?thesis by (simp add: hour12_def hm)
  qed
  let ?ap = "if hour t < 12 then ''AM'' else ''PM''"
  have "spec_read_visit_date (strftime_visit_date t)
      = (case index_of spec_day_names (day_abbr ! weekday t) of
              None \<Rightarrow> None
            | Some a \<Rightarrow>
                (case index_of spec_month_names (month_abbr ! (month t - 1)) of
                   None \<Rightarrow> None
                 | Some b \<Rightarrow>
                     if dec (year t) \<noteq> []
                        \<and> list_all is_digit
                            (dec2 (day t) @ dec2 (hour12 (hour t)) @ dec2 (minute t))
                        \<and> 1 \<le> read_dec (dec2 (hour12 (hour t)))
                        \<and> read_dec (dec2 (hour12 (hour t))) \<le> 12
                        \<and> (?ap = ''AM'' \<or> ?ap = ''PM'')
                     then Some (\<lparr>year = read_dec (dec (year t)), month = b + 1,
                                 day = read_dec (dec2 (day t)),
                                 hour = read_dec (dec2 (hour12 (hour t))) mod 12
                                   + (if ?ap = ''PM'' then 12 else 0),
                                 minute = read_dec (dec2 (minute t))\<rparr>, a)
                     else None))"
    unfolding strftime_visit_date_def
    by (rule read_shape) (use w m d h n y in simp_all)
  also have "\<dots> = Some (\<lparr>year = year t, month = month t - 1 + 1, day = day t,
               hour = hour12 (hour t) mod 12 + (if hour t < 12 then 0 else 12),
               minute = minute t\<rparr>, weekday t)"
    using w m d h n y hr by simp
  finally show ?thesis
    using v hh by simp
qed

lemma weekday_next_day:
  "weekday (t\<lparr>day := day t + 1\<rparr>) = (weekday t + 1) mod 7"
  by (simp add: weekday_def ymd2ord_def mod_simps)

lemma weekday_examples:
  "weekday \<lparr>year = 2024, month = 2, day = 29, hour = 0, minute = 0\<rparr> = 3"
  "weekday \<lparr>year = 2024, month = 3, day = 1, hour = 0, minute = 0\<rparr> = 4"
  "weekday \<lparr>year = 2023, month = 12, day = 31, hour = 0, minute = 0\<rparr> = 6"
  "weekday \<lparr>year = 2024, month = 1, day = 1, hour = 0, minute = 0\<rparr> = 0"
  "weekday \<lparr>year = 2000, month = 1, day = 1, hour = 0, minute = 0\<rparr> = 5"
  "weekday \<lparr>year = 1900, month = 3, day = 1, hour = 0, minute = 0\<rparr> = 3"
  "weekday \<lparr>year = 2100, month = 3, day = 1, hour = 0, minute = 0\<rparr> = 0"
  by (simp_all add: weekday_def ymd2ord_def days_before_year_def days_before_month_def
      is_leap_def)

lemma strftime_examples:
  "strftime_visit_date \<lparr>year = 2024, month = 1, day = 1, hour = 0, minute = 5\<rparr>
     = ''Mon 01 Jan 2024, 12:05AM''"
  "strftime_visit_date \<lparr>year = 2023, month = 12, day = 31, hour = 12, minute = 0\<rparr>
     = ''Sun 31 Dec 2023, 12:00PM''"
  by (simp_all add: clock_defs)

section \<open>The routes on a collection of Patient documents\<close>

lemma array_of_iff: "array_of P v \<longleftrightarrow> (\<exists>xs. v = Some (BArr xs) \<and> list_all P xs)"
  by (auto simp: array_of_def split: option.splits bson.splits)

lemma field_Some_doc: "field k d = Some v \<Longrightarrow> \<exists>kvs. d = BDoc kvs \<and> map_of kvs k = Some v"
  by (cases d) simp_all

lemma patient_doc_fields:
  assumes "patient_doc d"
  obtains kvs where "d = BDoc kvs"
    "map_of kvs ''dependents'' = Some (BArr (dependents_of d))"
    "list_all child_doc (dependents_of d)"
    "map_of kvs ''visits'' = Some (BArr (visits_of d))"
    "list_all visit_doc (visits_of d)"
proof -
  from assms obtain cs vs where
    f: "field ''dependents'' d = Some (BArr cs)" "list_all child_doc cs"
       "field ''visits'' d = Some (BArr vs)" "list_all visit_doc vs"
    by (auto simp: patient_doc_def array_of_iff)
  from f(1) obtain kvs where "d = BDoc kvs"
    using field_Some_doc by blast
  with f that show thesis
    by (simp add: dependents_of_def visits_of_def elems_arr)
qed

lemma child_doc_fields:
  assumes "child_doc c"
  obtains kvs s where "c = BDoc kvs"
    "map_of kvs ''name'' = Some (BStr s)"
    "map_of kvs ''visits'' = Some (BArr (visits_of c))"
    "list_all visit_doc (visits_of c)"
proof -
  from assms obtain vs where
    f: "is_str (field ''name'' c)" "field ''visits'' c = Some (BArr vs)" "list_all visit_doc vs"
    by (auto simp: child_doc_def array_of_iff)
  from f(1) obtain s where s: "field ''name'' c = Some (BStr s)"
    by (auto simp: is_str_def split: option.splits bson.splits)
  from f(2) obtain kvs where "c = BDoc kvs"
    using field_Some_doc by blast
  with f s that show thesis
    by (simp add: visits_of_def elems_arr)
qed

lemma child_name_matches_str:
  "field ''name'' c = Some (BStr s) \<Longrightarrow> child_name_matches c nm = Inr (names_match s nm)"
  by (cases c) (simp_all add: child_name_matches_def names_match_def name_parts_def)

lemma other_facility_visits_docs:
  "list_all visit_doc vs \<Longrightarrow>
   other_facility_visits fac vs = Inr (spec_filterVisible vs fac)"
proof (induction vs)
  case Nil
  then show ?case by (simp add: spec_filterVisible_def)
next
  case (Cons v vs)
  from Cons.prems obtain kvs x where v: "v = BDoc kvs" "map_of kvs ''facility_name'' = Some x"
    by (cases v) (auto simp: visit_doc_def)
  with Cons show ?case
    by (auto simp: spec_filterVisible_def)
qed

lemma search_dependents_docs:
  "list_all child_doc cs \<Longrightarrow>
   search_dependents fac nm cs
     = Inr (map_option (\<lambda>c. spec_filterVisible (visits_of c) fac)
              (find (child_matches nm) cs))"
proof (induction cs)
  case Nil
  then show ?case by simp
next
  case (Cons c cs)
  from Cons.prems have "child_doc c" by simp
  then obtain kvs s where c: "c = BDoc kvs" "map_of kvs ''name'' = Some (BStr s)"
    "map_of kvs ''visits'' = Some (BArr (visits_of c))" "list_all visit_doc (visits_of c)"
    by (rule child_doc_fields)
  have m: "child_name_matches c nm = Inr (names_match s nm)"
    using c by (simp add: child_name_matches_str)
  have cm: "child_matches nm c = names_match s nm"
    using c by (simp add: child_matches_def)
  show ?case
  proof (cases "names_match s nm")
    case True
    have "getitem c ''visits'' = Inr (BArr (visits_of c))"
      using c(1,3) by simp
    with True m cm c(4) show ?thesis
      by (simp add: other_facility_visits_docs)
  next
    case False
    with m cm Cons show ?thesis by simp
  qed
qed


lemma getitem_project:
  "getitem (project f (BDoc kvs)) f = getitem (BDoc kvs) f"
  by (simp add: project_def map_of_project)

lemma found_patient_doc:
  "patient_docs st \<Longrightarrow> find P (coll st) = Some d \<Longrightarrow> patient_doc d"
  by (auto simp: patient_docs_def list_all_iff dest: find_Some_set)

lemma found_int64: "find (matches_id_number n) c = Some d \<Longrightarrow> int64 n"
  by (auto simp: matches_id_number_def dest: find_Some_set)

lemma get_patient_overflow:
  "\<not> int64 (VisitSearch.id_number key) \<Longrightarrow>
   get_patient current_user key st = (Inl OverflowError, st)"
  by (simp add: get_patient_def find_one_def)

lemma get_patient_docs:
  assumes "patient_docs st" and i: "int64 (VisitSearch.id_number key)"
  shows "get_patient current_user key st =
     (Inr (case spec_resolveForRead key (coll st) of
             None \<Rightarrow> []
           | Some ledger \<Rightarrow> spec_filterVisible ledger (User.facility_name current_user)),
      st\<lparr>calls := calls st
         @ [Find_one (VisitSearch.id_number key)
              (if is_child key then ''dependents'' else ''visits'')]\<rparr>)"
proof (cases "find (matches_id_number (VisitSearch.id_number key)) (coll st)")
  case None
  with i show ?thesis
    by (simp add: get_patient_def find_one_def spec_resolveForRead_def)
next
  case (Some d)
  with assms(1) have "patient_doc d" by (rule found_patient_doc)
  then obtain kvs where d: "d = BDoc kvs"
    "map_of kvs ''dependents'' = Some (BArr (dependents_of d))"
    "list_all child_doc (dependents_of d)"
    "map_of kvs ''visits'' = Some (BArr (visits_of d))"
    "list_all visit_doc (visits_of d)"
    by (rule patient_doc_fields)
  show ?thesis
  proof (cases "is_child key")
    case True
    have g: "getitem (project ''dependents'' d) ''dependents'' = Inr (BArr (dependents_of d))"
      using d(1,2) by (simp add: getitem_project)
    show ?thesis
      using True Some g d(3) i
      by (simp add: get_patient_def find_one_def spec_resolveForRead_def
          search_dependents_docs split: option.splits)
  next
    case False
    have g: "getitem (project ''visits'' d) ''visits'' = Inr (BArr (visits_of d))"
      using d(1,4) by (simp add: getitem_project)
    show ?thesis
      using False Some g d(5) i
      by (simp add: get_patient_def find_one_def spec_resolveForRead_def
          other_facility_visits_docs)
  qed
qed

lemma get_patient_reads_only:
  "coll (snd (get_patient current_user key st)) = coll st"
  "new_calls st (snd (get_patient current_user key st))
     = (if int64 (VisitSearch.id_number key)
        then [Find_one (VisitSearch.id_number key)
                (if is_child key then ''dependents'' else ''visits'')]
        else [])"
  by (auto simp: get_patient_def find_one_def new_calls_def
      split: option.splits sum.splits)

lemma get_patient_unknown:
  "int64 (VisitSearch.id_number key) \<Longrightarrow>
   find (matches_id_number (VisitSearch.id_number key)) (coll st) = None \<Longrightarrow>
   fst (get_patient current_user key st) = Inr []"
  by (simp add: get_patient_def find_one_def)



lemma named_str_child:
  "field ''name'' c = Some (BStr t) \<Longrightarrow> named (BStr s) c = (t = s)"
  by (simp add: named_def)



lemma push_visits_child_doc:
  assumes "child_doc c"
  shows "\<exists>c'. push ''visits'' v c = Inr c'
            \<and> field ''name'' c' = field ''name'' c
            \<and> visits_of c' = visits_of c @ [v]
            \<and> (visit_doc v \<longrightarrow> child_doc c')"
proof -
  from assms obtain kvs s where c: "c = BDoc kvs" "map_of kvs ''name'' = Some (BStr s)"
    "map_of kvs ''visits'' = Some (BArr (visits_of c))" "list_all visit_doc (visits_of c)"
    by (rule child_doc_fields)
  let ?c' = "BDoc (set_field ''visits'' (BArr (visits_of c @ [v])) kvs)"
  have "push ''visits'' v c = Inr ?c'"
    using c by (simp add: push_def)
  moreover have "field ''name'' ?c' = field ''name'' c"
    using c by (simp add: map_of_set_field)
  moreover have "visits_of ?c' = visits_of c @ [v]"
    by (simp add: visits_of_def map_of_set_field elems_arr)
  moreover have "visit_doc v \<longrightarrow> child_doc ?c'"
    using c by (simp add: child_doc_def is_str_def array_of_def map_of_set_field)
  ultimately show ?thesis by blast
qed



section \<open>Writes keep Patient documents\<close>

lemma update_first_total:
  assumes "\<And>x. x \<in> set xs \<Longrightarrow> P x \<Longrightarrow> \<exists>y. f x = Inr y"
  shows "\<exists>ys. update_first P f xs = Inr ys"
  using assms
proof (induction xs)
  case Nil
  then show ?case by simp
next
  case (Cons a xs)
  show ?case
  proof (cases "P a")
    case True
    with Cons.prems [of a] obtain y where "f a = Inr y" by auto
    with True show ?thesis by simp
  next
    case False
    from Cons.IH Cons.prems obtain ys where "update_first P f xs = Inr ys"
      by auto
    with False show ?thesis by simp
  qed
qed

lemma push_visits_patient_doc:
  assumes "patient_doc d" and "visit_doc v"
  shows "\<exists>d'. push ''visits'' v d = Inr d' \<and> patient_doc d'"
proof -
  from assms(1) obtain kvs where d: "d = BDoc kvs"
    "map_of kvs ''dependents'' = Some (BArr (dependents_of d))"
    "list_all child_doc (dependents_of d)"
    "map_of kvs ''visits'' = Some (BArr (visits_of d))"
    "list_all visit_doc (visits_of d)"
    by (rule patient_doc_fields)
  with assms(2) show ?thesis
    by (simp add: push_def patient_doc_def array_of_def map_of_set_field)
qed

lemma push_dependents_patient_doc:
  assumes "patient_doc d" and "child_doc c"
  shows "\<exists>d'. push ''dependents'' c d = Inr d' \<and> patient_doc d'"
proof -
  from assms(1) obtain kvs where d: "d = BDoc kvs"
    "map_of kvs ''dependents'' = Some (BArr (dependents_of d))"
    "list_all child_doc (dependents_of d)"
    "map_of kvs ''visits'' = Some (BArr (visits_of d))"
    "list_all visit_doc (visits_of d)"
    by (rule patient_doc_fields)
  with assms(2) show ?thesis
    by (simp add: push_def patient_doc_def array_of_def map_of_set_field)
qed

lemma push_dependents_visits_patient_doc:
  assumes "patient_doc d" and "visit_doc v"
  shows "\<exists>d'. push_dependents_visits q v d = Inr d' \<and> patient_doc d'"
proof -
  from assms(1) obtain kvs where d: "d = BDoc kvs"
    "map_of kvs ''dependents'' = Some (BArr (dependents_of d))"
    "list_all child_doc (dependents_of d)"
    "map_of kvs ''visits'' = Some (BArr (visits_of d))"
    "list_all visit_doc (visits_of d)"
    by (rule patient_doc_fields)
  have "\<exists>cs'. update_first (named q) (push ''visits'' v) (dependents_of d) = Inr cs'"
  proof (rule update_first_total)
    fix c
    assume "c \<in> set (dependents_of d)"
    with d(3) have "child_doc c" by (simp add: list_all_iff)
    from push_visits_child_doc [OF this, of v] show "\<exists>y. push ''visits'' v c = Inr y"
      by blast
  qed
  then obtain cs' where u: "update_first (named q) (push ''visits'' v) (dependents_of d) = Inr cs'"
    by blast
  have "list_all child_doc cs'"
    using u d(3)
  proof (rule update_first_all)
    fix c c'
    assume "child_doc c" and "push ''visits'' v c = Inr c'"
    with push_visits_child_doc [of c v] assms(2) show "child_doc c'" by auto
  qed
  with d u show ?thesis
    by (simp add: push_dependents_visits_def patient_doc_def array_of_def map_of_set_field)
qed

lemma apply_update_docs:
  assumes "patient_doc d" and "carries_docs (Update_one flt upd)"
  shows "\<exists>d'. apply_update flt upd d = Inr d' \<and> patient_doc d'"
proof (cases upd)
  case (Push f v)
  with assms show ?thesis
    by (auto simp: push_visits_patient_doc push_dependents_patient_doc)
next
  case (PushDependentsVisits v)
  with assms show ?thesis
    by (cases flt) (simp_all add: push_dependents_visits_patient_doc)
qed

lemma run_call_docs:
  assumes "list_all patient_doc c" and "carries_docs w"
  shows "\<exists>c'. run_call w c = Inr c' \<and> list_all patient_doc c'"
proof (cases w)
  case (Find_one n proj)
  with assms show ?thesis by simp
next
  case (Insert_one d)
  with assms show ?thesis by simp
next
  case (Update_one flt upd)
  have "\<exists>c'. update_first (filter_matches flt) (apply_update flt upd) c = Inr c'"
  proof (rule update_first_total)
    fix d
    assume "d \<in> set c"
    with assms(1) have "patient_doc d" by (simp add: list_all_iff)
    with apply_update_docs assms(2) Update_one show "\<exists>y. apply_update flt upd d = Inr y"
      by blast
  qed
  then obtain c' where u: "update_first (filter_matches flt) (apply_update flt upd) c = Inr c'"
    by blast
  have "list_all patient_doc c'"
    using u assms(1)
  proof (rule update_first_all)
    fix d d'
    assume "patient_doc d" and "apply_update flt upd d = Inr d'"
    with apply_update_docs [of d flt upd] assms(2) Update_one show "patient_doc d'"
      by auto
  qed
  with u Update_one show ?thesis by simp
qed

lemma rtoa_docs:
  assumes "reads_then_one_append v st R" and "patient_docs st"
  shows "patient_docs (snd R)
         \<and> calls (snd R) = calls st @ new_calls st (snd R)
         \<and> (\<forall>d. Insert_one d \<in> set (new_calls st (snd R)) \<longrightarrow> patient_doc d)"
  using assms(1)
proof (cases rule: rtoa_cases)
  case (read_fails reads e)
  have "Insert_one d \<notin> set reads" for d
    using read_fails(1) by (auto simp: list_all_iff)
  with read_fails assms(2) show ?thesis
    by (simp add: patient_docs_def new_calls_def)
next
  case (write_fails reads w e)
  with run_call_docs [of "coll st" w] assms(2) show ?thesis
    by (auto simp: patient_docs_def)
next
  case (written reads w c)
  have r: "Insert_one d \<notin> set reads" for d
    using written(1) by (auto simp: list_all_iff)
  from run_call_docs [of "coll st" w] assms(2) written(4,5)
  have "list_all patient_doc c"
    by (auto simp: patient_docs_def)
  with written r show ?thesis
    by (auto simp: patient_docs_def new_calls_def)
qed

lemma validate_VisitSearch_same: "validate_VisitSearch p = Inr q \<Longrightarrow> q = p"
  by (auto simp: validate_VisitSearch_def get_parent_name_def VisitSearch_data_def
      split: if_splits)

lemma validate_VisitSearch_iff:
  "isl (validate_VisitSearch p)
     \<longleftrightarrow> is_child p \<and> (parent_name p = None \<or> parent_name p = Some ''null'')"
  by (auto simp: validate_VisitSearch_def get_parent_name_def VisitSearch_data_def)

lemma validate_VisitSearch_error:
  "is_child p \<Longrightarrow> parent_name p = None \<or> parent_name p = Some ''null'' \<Longrightarrow>
   validate_VisitSearch p = Inl (ValidationError [''parent_name''])"
  by (auto simp: validate_VisitSearch_def get_parent_name_def VisitSearch_data_def)

lemma searchVisits_valid:
  assumes "\<not> isl (validate_VisitSearch key)"
  shows "searchVisits current_user key st = get_patient current_user key st"
proof (cases "validate_VisitSearch key")
  case (Inl e)
  with assms show ?thesis by simp
next
  case (Inr q)
  then have "q = key" by (rule validate_VisitSearch_same)
  with Inr show ?thesis by (simp add: searchVisits_def)
qed

lemma store_ok_add_visit:
  assumes "store_ok st"
  shows "store_ok (snd (add_visit current_user now visit st))"
proof -
  from assms have p: "patient_docs st"
    and i: "\<And>d. Insert_one d \<in> set (calls st) \<Longrightarrow> patient_doc d"
    by (auto simp: store_ok_def)
  from rtoa_docs [OF add_visit_rtoa p, of current_user now visit] i
  show ?thesis
    unfolding store_ok_def by (metis Un_iff set_append)
qed

lemma store_ok_get_patient:
  assumes "store_ok st"
  shows "store_ok (snd (get_patient current_user key st))"
proof -
  have "calls (snd (get_patient current_user key st))
          = calls st @ new_calls st (snd (get_patient current_user key st))"
    by (auto simp: get_patient_def find_one_def new_calls_def
        split: option.splits sum.splits)
  with assms show ?thesis
    by (auto simp: store_ok_def patient_docs_def get_patient_reads_only)
qed

lemma reachable_store_ok: "reachable st \<Longrightarrow> store_ok st"
proof (induction rule: reachable.induct)
  case empty
  show ?case by (simp add: store_ok_def patient_docs_def)
next
  case (post st current_user now body)
  then show ?case
    by (auto simp: postVisit_def store_ok_add_visit split: sum.splits)
next
  case (search st current_user body)
  then show ?case
    by (auto simp: searchVisits_def store_ok_get_patient split: sum.splits)
qed

lemma resolve_int64:
  "spec_resolveForRead key c = Some ledger \<Longrightarrow> int64 (VisitSearch.id_number key)"
  by (auto simp: spec_resolveForRead_def split: option.splits dest: found_int64)

section \<open>Validation and the write path\<close>

lemma validate_VisitUpload_same: "validate_VisitUpload u = Inr u' \<Longrightarrow> u' = u"
  by (auto simp: validate_VisitUpload_def Let_def
      split: sum.splits py_error.splits if_splits dest: validate_VisitSearch_same)

lemma postVisit_valid:
  "validate_VisitUpload body = Inr u \<Longrightarrow>
   postVisit current_user now body st = add_visit current_user now body st"
  using validate_VisitUpload_same [of body u] by (simp add: postVisit_def)

lemma postVisit_invalid:
  "validate_VisitUpload body = Inl e \<Longrightarrow> postVisit current_user now body st = (Inl e, st)"
  by (simp add: postVisit_def)

lemma postVisit_rtoa:
  "reads_then_one_append
     (dump_VisitDetails (stamp current_user now (visit_details body))) st
     (postVisit current_user now body st)"
proof (cases "validate_VisitUpload body")
  case (Inl e)
  have "reads_then_one_append
     (dump_VisitDetails (stamp current_user now (visit_details body))) st
     (Inl e, st\<lparr>calls := calls st @ []\<rparr>)"
    by (rule rtoa_error) simp
  with Inl show ?thesis by (simp add: postVisit_invalid)
next
  case (Inr u)
  then show ?thesis by (simp add: postVisit_valid add_visit_rtoa)
qed

lemma rtoa_at_most_one:
  assumes "reads_then_one_append v st R"
  shows "length (filter is_write (new_calls st (snd R))) \<le> 1
         \<and> list_all (\<lambda>c. is_write c \<longrightarrow> appends c) (new_calls st (snd R))"
  using assms
  by (cases rule: rtoa_cases)
    (auto simp: new_calls_def reads_filter list_all_iff)

lemma validate_VisitUpload_iff:
  "isl (validate_VisitUpload body)
     \<longleftrightarrow> is_child (patient_search body)
           \<and> (parent_name (patient_search body) = None
              \<or> parent_name (patient_search body) = Some ''null'')
         \<or> \<not> (0 < age (patient_bio (visit_details body))
              \<and> age (patient_bio (visit_details body)) < 120)
         \<or> \<not> (gender (patient_bio (visit_details body)) = ''male''
              \<or> gender (patient_bio (visit_details body)) = ''female'')"
  by (auto simp: validate_VisitUpload_def Let_def validate_VisitSearch_def get_parent_name_def
      VisitSearch_data_def VisitDetails_errors_def PatientBio_errors_def)

lemma validate_VisitUpload_parent:
  assumes "is_child (patient_search body)"
    and "parent_name (patient_search body) = None
         \<or> parent_name (patient_search body) = Some ''null''"
  shows "validate_VisitUpload body
     = Inl (ValidationError (''patient_search.parent_name''
         # map (\<lambda>l. ''visit_details.'' @ l) (VisitDetails_errors (visit_details body))))"
  using validate_VisitSearch_error [OF assms]
  by (simp add: validate_VisitUpload_def Let_def)

section \<open>The examples, evaluated\<close>

lemma example_id_int64: "int64 12341234"
  by (simp add: int64_def)

lemma amina_upload_valid: "validate_VisitUpload amina_upload = Inr amina_upload"
  by (simp add: validate_VisitUpload_def Let_def validate_VisitSearch_def get_parent_name_def
      VisitSearch_data_def VisitDetails_errors_def PatientBio_errors_def
      amina_upload_def amina_key_def amina_details_def)

lemma wanjiru_upload_valid: "validate_VisitUpload wanjiru_upload = Inr wanjiru_upload"
  by (simp add: validate_VisitUpload_def Let_def validate_VisitSearch_def get_parent_name_def
      VisitSearch_data_def VisitDetails_errors_def PatientBio_errors_def
      wanjiru_upload_def wanjiru_key_def amina_key_def amina_details_def)

lemma amina_first_visit:
  "postVisit facility_a clinic_time amina_upload empty_store
     = (Inr ''Visit posted successfully'',
        \<lparr>coll = [amina_parent],
         calls = [Find_one 12341234 ''id_number'', Insert_one amina_parent]\<rparr>)"
  unfolding postVisit_valid [OF amina_upload_valid]
  by (simp add: add_visit_def Let_def example_id_int64
      add_visit_child_def find_one_def py_not_def posted_def insert_one_def
      dump_Patient_def dump_Child_def dump_opt_def dump_list_def new_child_def
      amina_upload_def amina_key_def empty_store_def amina_parent_def amina_child_def v1_def)

lemma amina_store_eq:
  "amina_store =
     \<lparr>coll = [amina_parent],
      calls = [Find_one 12341234 ''id_number'', Insert_one amina_parent]\<rparr>"
  by (simp add: amina_store_def amina_first_visit)

lemma amina_names_match: "names_match ''Amina Wanjiru'' ''Wanjiru Amina''"
  unfolding names_match_def name_parts_def by code_simp


lemma v1_fields:
  "field ''facility_name'' v1 = Some (BStr ''FacilityA'')"
  "field ''facility_type'' v1 = Some (BStr ''Hospital'')"
  "field ''visit_date'' v1 = Some (BStr ''Tue 16 Jul 2024, 03:51PM'')"
  by (simp_all add: v1_def field_stamped facility_a_def clinic_time_def strftime_example)

lemma amina_parent_doc: "patient_doc amina_parent"
  by (simp add: patient_doc_def child_doc_def array_of_def is_str_def visit_doc_def
      amina_parent_def amina_child_def v1_fields)

lemma amina_store_docs: "patient_docs amina_store"
  by (simp add: patient_docs_def amina_store_eq amina_parent_doc)

lemma amina_parent_found:
  "find (matches_id_number 12341234) (coll amina_store) = Some amina_parent"
  by (simp add: amina_store_eq matches_id_number_def amina_parent_def example_id_int64)

lemma amina_dependents: "dependents_of amina_parent = [amina_child]"
  by (simp add: dependents_of_def elems_def amina_parent_def)

lemma amina_visits: "visits_of amina_child = [v1]"
  by (simp add: visits_of_def elems_def amina_child_def)

lemma amina_child_found:
  "find (child_matches ''Wanjiru Amina'') (dependents_of amina_parent) = Some amina_child"
  by (simp add: amina_dependents child_matches_def amina_child_def amina_names_match)


lemma wanjiru_resolves: "spec_resolveForRead wanjiru_key (coll amina_store) = Some [v1]"
  using amina_parent_found amina_child_found
  by (simp add: spec_resolveForRead_def wanjiru_key_def amina_key_def amina_visits)

lemma reachable_amina_store: "reachable amina_store"
  unfolding amina_store_def empty_store_def by (intro reachable.post reachable.empty)

lemma amina_child_name_matches:
  "child_name_matches amina_child ''Wanjiru Amina'' = Inr True"
  by (simp add: child_name_matches_str [of _ "''Amina Wanjiru''"] amina_child_def
      amina_names_match)

lemma amina_second_visit:
  "postVisit facility_b clinic_time wanjiru_upload amina_store
     = (Inr ''Visit posted successfully'',
        \<lparr>coll = [BDoc [(''id'', BNull), (''id_number'', BInt 12341234),
                       (''name'', BStr ''Mary Wanjiru''),
                       (''dependents'',
                          BArr [BDoc [(''name'', BStr ''Amina Wanjiru''),
                                      (''visits'', BArr [v1, v2])]]),
                       (''visits'', BArr [])]],
         calls = [Find_one 12341234 ''id_number'', Insert_one amina_parent,
                  Find_one 12341234 ''id_number'', Find_one 12341234 ''dependents'',
                  Update_one (IdNumberAndDependentName 12341234 (BStr ''Amina Wanjiru''))
                    (PushDependentsVisits v2)]\<rparr>)"
proof -
  have n: "getitem amina_child ''name'' = Inr (BStr ''Amina Wanjiru'')"
    by (simp add: amina_child_def)
  have m: "matches_id_number 12341234 amina_parent"
    by (simp add: matches_id_number_def amina_parent_def example_id_int64)
  have p: "project ''id_number'' amina_parent = BDoc [(''id_number'', BInt 12341234)]"
    "project ''dependents'' amina_parent = BDoc [(''dependents'', BArr [amina_child])]"
    by (simp_all add: project_def amina_parent_def)
  have d: "matches_dependent_name (BStr ''Amina Wanjiru'') amina_parent"
    "named (BStr ''Amina Wanjiru'') amina_child"
    by (simp_all add: matches_dependent_name_def named_def amina_parent_def amina_child_def)
  have u: "push_dependents_visits (BStr ''Amina Wanjiru'') v2 amina_parent
             = Inr (BDoc [(''id'', BNull), (''id_number'', BInt 12341234),
                       (''name'', BStr ''Mary Wanjiru''),
                       (''dependents'',
                          BArr [BDoc [(''name'', BStr ''Amina Wanjiru''),
                                      (''visits'', BArr [v1, v2])]]),
                       (''visits'', BArr [])])"
    using d(2)
    by (simp add: push_dependents_visits_def amina_parent_def)
      (simp add: push_def amina_child_def)
  show ?thesis
    unfolding postVisit_valid [OF wanjiru_upload_valid]
    by (simp add: add_visit_def Let_def example_id_int64
        add_visit_child_def find_one_def py_not_def posted_def update_one_def
        amina_store_eq m p n d u amina_child_name_matches
        wanjiru_upload_def wanjiru_key_def amina_key_def v2_def [symmetric])
qed

lemmas validation_defs =
  validate_VisitUpload_def validate_VisitSearch_def get_parent_name_def
  VisitSearch_data_def VisitDetails_errors_def PatientBio_errors_def Let_def

lemma amina_details_valid: "VisitDetails_errors amina_details = []"
  by (simp add: VisitDetails_errors_def PatientBio_errors_def amina_details_def)



lemma free_text_upload_valid: "validate_VisitUpload free_text_upload = Inr free_text_upload"
  by (simp add: validation_defs free_text_upload_def amina_key_def amina_details_def)

lemma free_text_first_visit:
  "postVisit facility_a clinic_time free_text_upload empty_store
   = (Inr ''Visit posted successfully'',
      \<lparr>coll = [dump_Patient
                 \<lparr>id_opt = None, Patient.id_number = 12341234,
                  Patient.name = ''Mary Wanjiru'',
                  dependents = Some [new_child amina_key
                    (stamp facility_a clinic_time (visit_details free_text_upload))],
                  Patient.visits = Some []\<rparr>],
       calls = [Find_one 12341234 ''id_number'',
                Insert_one (dump_Patient
                 \<lparr>id_opt = None, Patient.id_number = 12341234,
                  Patient.name = ''Mary Wanjiru'',
                  dependents = Some [new_child amina_key
                    (stamp facility_a clinic_time (visit_details free_text_upload))],
                  Patient.visits = Some []\<rparr>)]\<rparr>)"
  unfolding postVisit_valid [OF free_text_upload_valid]
  by (simp add: add_visit_def Let_def add_visit_child_def find_one_def py_not_def posted_def
    insert_one_def free_text_upload_def amina_key_def empty_store_def example_id_int64)

section \<open>Name Matcher\<close>



section \<open>Posting a visit for a child that is already stored\<close>



section \<open>Visits of other facilities\<close>

text \<open>
  C3. When the collection holds Patient documents and the search key resolves to a ledger
  (the visits of the adult, or of the first dependent whose name matches), \<open>get_patient\<close>
  returns exactly the visits of the ledger whose \<open>facility_name\<close> is not the string that
  is the requester's facility name, in the order of the ledger, and so does \<open>searchVisits\<close>
  for a key that passes validation; the result is what \<open>spec_filterVisible\<close> retains, a
  subsequence of the ledger, and the collection is the same afterwards.
\<close>

theorem search_returns_other_facilities:
  assumes "patient_docs st"
    and "spec_resolveForRead key (coll st) = Some ledger"
  shows "fst (get_patient current_user key st)
           = Inr (filter (\<lambda>v. field ''facility_name'' v
                               \<noteq> Some (BStr (User.facility_name current_user))) ledger)
         \<and> fst (get_patient current_user key st)
           = Inr (spec_filterVisible ledger (User.facility_name current_user))
         \<and> (\<not> isl (validate_VisitSearch key) \<longrightarrow>
              fst (searchVisits current_user key st)
                = Inr (spec_filterVisible ledger (User.facility_name current_user)))
         \<and> subseq (spec_filterVisible ledger (User.facility_name current_user)) ledger
         \<and> coll (snd (get_patient current_user key st)) = coll st
         \<and> coll (snd (searchVisits current_user key st)) = coll st"
proof -
  have "coll (snd (searchVisits current_user key st)) = coll st"
    by (cases "validate_VisitSearch key")
      (auto simp: searchVisits_def get_patient_reads_only dest: validate_VisitSearch_same)
  with get_patient_docs [OF assms(1) resolve_int64 [OF assms(2)], of current_user] assms(2)
  show ?thesis
    by (simp add: spec_filterVisible_def searchVisits_valid)
qed

text \<open>
  The example of the specification: the child's ledger holds one visit, from FacilityA. A
  search by FacilityB for "Wanjiru Amina" returns it, the same search by FacilityA returns
  nothing.
\<close>

theorem search_returns_other_facilities_witness:
  "patient_docs amina_store
   \<and> spec_resolveForRead wanjiru_key (coll amina_store) = Some [v1]
   \<and> fst (get_patient facility_b wanjiru_key amina_store) = Inr [v1]
   \<and> fst (get_patient facility_a wanjiru_key amina_store) = Inr []"
proof -
  have fb: "User.facility_name facility_b = ''FacilityB''"
    and fa: "User.facility_name facility_a = ''FacilityA''"
    by (simp_all add: facility_a_def facility_b_def)
  from search_returns_other_facilities [OF amina_store_docs wanjiru_resolves, of facility_b]
  have b: "fst (get_patient facility_b wanjiru_key amina_store) = Inr [v1]"
    by (simp add: fb v1_fields)
  from search_returns_other_facilities [OF amina_store_docs wanjiru_resolves, of facility_a]
  have a: "fst (get_patient facility_a wanjiru_key amina_store) = Inr []"
    by (simp add: fa v1_fields)
  from amina_store_docs wanjiru_resolves a b show ?thesis by blast
qed

section \<open>The stamp on a visit record\<close>

text \<open>
  C4. Every visit record that a \<open>postVisit\<close> hands to the store is the request's visit
  details with \<open>facility_name\<close> and \<open>facility_type\<close> set to those of the authenticated
  caller and \<open>visit_date\<close> set to the text that \<open>strftime\<close> gives for the time of the call;
  a request that succeeds hands over exactly one such record. What the caller supplies for
  the three fields has no effect: the request with other values there gives the same result
  and the same store.

  For every time of day on a day of a month, the text is of the format
  \<^verbatim>\<open>%a %d %b %Y, %I:%M%p\<close> and stands for that time: read back by the words of the
  format (\<open>spec_read_visit_date\<close>) it gives the year, month, day, hour and minute of the
  call and the day of the week of that date. The day of the week moves on by one from a day
  to the next; 16 July 2024 is a Tuesday, 29 February 2024 a Thursday, 1 January 2000 a
  Saturday, 1 March 1900 a Thursday and 1 March 2100 a Monday. At 15:51 on 16 July 2024 the
  date reads "Tue 16 Jul 2024, 03:51PM", five minutes after midnight "12:05AM" and at noon
  "12:00PM".
\<close>

theorem postVisit_stamps_record:
  "(\<forall>r \<in> set (concat (map stored_visits
              (new_calls st (snd (postVisit current_user now body st))))).
      r = dump_VisitDetails (stamp current_user now (visit_details body))
      \<and> field ''facility_name'' r = Some (BStr (User.facility_name current_user))
      \<and> field ''facility_type'' r = Some (BStr (User.facility_type current_user))
      \<and> field ''visit_date'' r = Some (BStr (strftime_visit_date now)))
   \<and> (fst (postVisit current_user now body st) = Inr s \<longrightarrow>
        concat (map stored_visits (new_calls st (snd (postVisit current_user now body st))))
          = [dump_VisitDetails (stamp current_user now (visit_details body))])
   \<and> postVisit current_user now
        (body\<lparr>visit_details := (visit_details body)
           \<lparr>VisitDetails.facility_name := a, VisitDetails.facility_type := b,
            visit_date := c\<rparr>\<rparr>) st
      = postVisit current_user now body st
   \<and> (valid_time now \<longrightarrow>
        spec_read_visit_date (strftime_visit_date now) = Some (now, weekday now))
   \<and> weekday (now\<lparr>day := day now + 1\<rparr>) = (weekday now + 1) mod 7
   \<and> strftime_visit_date \<lparr>year = 2024, month = 7, day = 16, hour = 15, minute = 51\<rparr>
       = ''Tue 16 Jul 2024, 03:51PM''
   \<and> strftime_visit_date \<lparr>year = 2024, month = 1, day = 1, hour = 0, minute = 5\<rparr>
       = ''Mon 01 Jan 2024, 12:05AM''
   \<and> strftime_visit_date \<lparr>year = 2023, month = 12, day = 31, hour = 12, minute = 0\<rparr>
       = ''Sun 31 Dec 2023, 12:00PM''
   \<and> weekday \<lparr>year = 2024, month = 2, day = 29, hour = 0, minute = 0\<rparr> = 3
   \<and> weekday \<lparr>year = 2024, month = 3, day = 1, hour = 0, minute = 0\<rparr> = 4
   \<and> weekday \<lparr>year = 2000, month = 1, day = 1, hour = 0, minute = 0\<rparr> = 5
   \<and> weekday \<lparr>year = 1900, month = 3, day = 1, hour = 0, minute = 0\<rparr> = 3
   \<and> weekday \<lparr>year = 2100, month = 3, day = 1, hour = 0, minute = 0\<rparr> = 0"
proof -
  note r = postVisit_rtoa [of current_user now body st]
  have 1: "\<forall>r \<in> set (concat (map stored_visits
              (new_calls st (snd (postVisit current_user now body st))))).
      r = dump_VisitDetails (stamp current_user now (visit_details body))
      \<and> field ''facility_name'' r = Some (BStr (User.facility_name current_user))
      \<and> field ''facility_type'' r = Some (BStr (User.facility_type current_user))
      \<and> field ''visit_date'' r = Some (BStr (strftime_visit_date now))"
    using rtoa_stored [OF r] by (auto simp: field_stamped)
  have 2: "concat (map stored_visits (new_calls st (snd (postVisit current_user now body st))))
       = [dump_VisitDetails (stamp current_user now (visit_details body))]"
    if "fst (postVisit current_user now body st) = Inr s"
    using rtoa_success [OF r that] by blast
  let ?body' = "body\<lparr>visit_details := (visit_details body)
           \<lparr>VisitDetails.facility_name := a, VisitDetails.facility_type := b,
            visit_date := c\<rparr>\<rparr>"
  have 3: "postVisit current_user now ?body' st = postVisit current_user now body st"
  proof (cases "validate_VisitUpload body")
    case (Inl e)
    then have "validate_VisitUpload ?body' = Inl e"
      by (simp add: validate_VisitUpload_def Let_def VisitDetails_errors_def
          split: sum.splits py_error.splits if_splits)
    with Inl show ?thesis by (simp add: postVisit_invalid)
  next
    case (Inr u)
    then have "\<not> isl (validate_VisitUpload body)" by simp
    then have "\<not> isl (validate_VisitUpload ?body')"
      by (simp add: validate_VisitUpload_iff)
    then obtain u' where "validate_VisitUpload ?body' = Inr u'"
      by (cases "validate_VisitUpload ?body'") simp_all
    with Inr show ?thesis
      by (simp add: postVisit_valid add_visit_def stamp_overwrites)
  qed
  have 4: "valid_time now \<longrightarrow>
        spec_read_visit_date (strftime_visit_date now) = Some (now, weekday now)"
    by (simp add: strftime_read)
  note 5 = weekday_next_day [of now]
  from 1 2 3 4 5 strftime_example strftime_examples weekday_examples(1,2,5,6,7)
  show ?thesis by blast
qed

text \<open>
  The first visit of the example, whose body names another facility and another date.
\<close>

theorem postVisit_stamps_record_witness:
  "fst (postVisit facility_a clinic_time amina_upload empty_store)
     = Inr ''Visit posted successfully''
   \<and> concat (map stored_visits
        (new_calls empty_store (snd (postVisit facility_a clinic_time amina_upload empty_store))))
       = [v1]
   \<and> VisitDetails.facility_name (visit_details amina_upload) = Some ''Somewhere Else''
   \<and> visit_date (visit_details amina_upload) = Some ''yesterday''
   \<and> field ''facility_name'' v1 = Some (BStr ''FacilityA'')
   \<and> field ''facility_type'' v1 = Some (BStr ''Hospital'')
   \<and> field ''visit_date'' v1 = Some (BStr ''Tue 16 Jul 2024, 03:51PM'')
   \<and> valid_time clinic_time
   \<and> spec_read_visit_date ''Tue 16 Jul 2024, 03:51PM'' = Some (clinic_time, 1)"
proof -
  have ok: "fst (postVisit facility_a clinic_time amina_upload empty_store)
     = Inr ''Visit posted successfully''"
    by (simp add: amina_first_visit)
  note t = postVisit_stamps_record [where st = empty_store and current_user = facility_a
      and now = clinic_time and body = amina_upload and s = "''Visit posted successfully''"]
  from t ok have "concat (map stored_visits
        (new_calls empty_store (snd (postVisit facility_a clinic_time amina_upload empty_store))))
       = [dump_VisitDetails (stamp facility_a clinic_time (visit_details amina_upload))]"
    by blast
  then have c: "concat (map stored_visits
        (new_calls empty_store (snd (postVisit facility_a clinic_time amina_upload empty_store))))
       = [v1]"
    by (simp add: v1_def amina_upload_def)
  from t c have f: "field ''facility_name'' v1 = Some (BStr (User.facility_name facility_a))"
    "field ''facility_type'' v1 = Some (BStr (User.facility_type facility_a))"
    "field ''visit_date'' v1 = Some (BStr (strftime_visit_date clinic_time))"
    by simp_all
  from t have e: "strftime_visit_date clinic_time = ''Tue 16 Jul 2024, 03:51PM''"
    unfolding clinic_time_def by blast
  have vt: "valid_time clinic_time"
    by (simp add: valid_time_def clinic_time_def)
  have "weekday clinic_time = 1"
    by (simp add: clinic_time_def weekday_def ymd2ord_def days_before_year_def
        days_before_month_def is_leap_def)
  with t vt e have rd: "spec_read_visit_date ''Tue 16 Jul 2024, 03:51PM''
      = Some (clinic_time, 1)"
    by simp
  from e f have "field ''facility_name'' v1 = Some (BStr ''FacilityA'')"
    "field ''facility_type'' v1 = Some (BStr ''Hospital'')"
    "field ''visit_date'' v1 = Some (BStr ''Tue 16 Jul 2024, 03:51PM'')"
    by (simp_all add: facility_a_def)
  moreover have "VisitDetails.facility_name (visit_details amina_upload) = Some ''Somewhere Else''"
    "visit_date (visit_details amina_upload) = Some ''yesterday''"
    by (simp_all add: amina_upload_def amina_details_def)
  ultimately show ?thesis
    using ok c vt rd by blast
qed

section \<open>A child without a parent name\<close>

text \<open>
  C5. A request whose search key has \<open>is_child\<close> true and whose \<open>parent_name\<close> is absent
  (\<open>None\<close>) or is the string "null" is rejected with a ValidationError that names
  \<open>parent_name\<close>, by \<open>searchVisits\<close> and by \<open>postVisit\<close> alike, and the store is the one
  before the request: no call has been made to it. (An empty \<open>parent_name\<close> is not
  rejected; see below.)
\<close>

theorem missing_parent_name_rejected:
  assumes "is_child key"
    and "parent_name key = None \<or> parent_name key = Some ''null''"
  shows "searchVisits current_user key st = (Inl (ValidationError [''parent_name'']), st)
       \<and> postVisit current_user now \<lparr>patient_search = key, visit_details = v\<rparr> st
           = (Inl (ValidationError (''patient_search.parent_name''
                # map (\<lambda>l. ''visit_details.'' @ l) (VisitDetails_errors v))), st)"
  using validate_VisitSearch_error [OF assms]
    validate_VisitUpload_parent [of "\<lparr>patient_search = key, visit_details = v\<rparr>"] assms
  by (simp add: searchVisits_def postVisit_def)

theorem missing_parent_name_rejected_witness:
  "is_child orphan_key
   \<and> parent_name orphan_key = None
   \<and> searchVisits facility_a orphan_key amina_store
       = (Inl (ValidationError [''parent_name'']), amina_store)
   \<and> postVisit facility_a clinic_time
        \<lparr>patient_search = orphan_key, visit_details = amina_details\<rparr> amina_store
       = (Inl (ValidationError [''patient_search.parent_name'']), amina_store)"
proof -
  have h1: "is_child orphan_key" and h2: "parent_name orphan_key = None"
    by (simp_all add: orphan_key_def amina_key_def)
  from h2 have h2': "parent_name orphan_key = None \<or> parent_name orphan_key = Some ''null''"
    by simp
  from missing_parent_name_rejected [OF h1 h2', of facility_a amina_store clinic_time
      amina_details] h1 h2
  show ?thesis
    by (simp add: amina_details_valid)
qed

text \<open>
  With the empty string as \<open>parent_name\<close> of a child, both operations pass validation and
  reach the store: \<open>postVisit\<close> reads and inserts a document, \<open>searchVisits\<close> reads.
\<close>

theorem empty_parent_name_accepted:
  "is_child unnamed_parent_key
   \<and> parent_name unnamed_parent_key = Some ''''
   \<and> fst (postVisit facility_a clinic_time
        \<lparr>patient_search = unnamed_parent_key, visit_details = amina_details\<rparr> empty_store)
       = Inr ''Visit posted successfully''
   \<and> map is_write (calls (snd (postVisit facility_a clinic_time
        \<lparr>patient_search = unnamed_parent_key, visit_details = amina_details\<rparr> empty_store)))
       = [False, True]
   \<and> fst (searchVisits facility_a unnamed_parent_key empty_store) = Inr []
   \<and> calls (snd (searchVisits facility_a unnamed_parent_key empty_store))
       = [Find_one 12341234 ''dependents'']"
  by (simp add: postVisit_def searchVisits_def validation_defs
      add_visit_def add_visit_child_def get_patient_def find_one_def py_not_def posted_def
      insert_one_def unnamed_parent_key_def amina_key_def amina_details_def empty_store_def
      example_id_int64)

section \<open>Searching never writes\<close>




section \<open>The blood pressure of a visit\<close>

text \<open>
  C7. No format is required of \<open>blood_pressure\<close>. The validation of a \<open>postVisit\<close> body does
  not look at it: with any other string in its place the body is rejected with the same
  error or accepted as it was, and accepted with the new string in place. Every visit
  record that the request hands to the store carries the string as it was given.
\<close>

theorem blood_pressure_not_validated:
  "validate_VisitUpload
      (body\<lparr>visit_details := (visit_details body)
         \<lparr>visit_vitals := (visit_vitals (visit_details body))\<lparr>blood_pressure := bp\<rparr>\<rparr>\<rparr>)
     = map_sum (\<lambda>e. e)
         (\<lambda>u. u\<lparr>visit_details := (visit_details u)
            \<lparr>visit_vitals := (visit_vitals (visit_details u))\<lparr>blood_pressure := bp\<rparr>\<rparr>\<rparr>)
         (validate_VisitUpload body)
   \<and> (\<forall>r \<in> set (concat (map stored_visits
          (new_calls st (snd (postVisit current_user now
             (body\<lparr>visit_details := (visit_details body)
                \<lparr>visit_vitals := (visit_vitals (visit_details body))
                   \<lparr>blood_pressure := bp\<rparr>\<rparr>\<rparr>) st))))).
        field ''visit_vitals'' r
          = Some (BDoc [(''blood_pressure'', BStr bp),
                        (''weight'', BNum (weight (visit_vitals (visit_details body)))),
                        (''temperature'',
                           BNum (temperature (visit_vitals (visit_details body))))]))"
proof -
  let ?body' = "body\<lparr>visit_details := (visit_details body)
         \<lparr>visit_vitals := (visit_vitals (visit_details body))\<lparr>blood_pressure := bp\<rparr>\<rparr>\<rparr>"
  have 1: "validate_VisitUpload ?body'
     = map_sum (\<lambda>e. e)
         (\<lambda>u. u\<lparr>visit_details := (visit_details u)
            \<lparr>visit_vitals := (visit_vitals (visit_details u))\<lparr>blood_pressure := bp\<rparr>\<rparr>\<rparr>)
         (validate_VisitUpload body)"
    by (simp add: validate_VisitUpload_def Let_def VisitDetails_errors_def
        split: sum.splits py_error.splits)
  have 2: "field ''visit_vitals'' r
          = Some (BDoc [(''blood_pressure'', BStr bp),
                        (''weight'', BNum (weight (visit_vitals (visit_details body)))),
                        (''temperature'',
                           BNum (temperature (visit_vitals (visit_details body))))])"
    if "r \<in> set (concat (map stored_visits
          (new_calls st (snd (postVisit current_user now ?body' st)))))" for r
  proof -
    from rtoa_stored [OF postVisit_rtoa [of current_user now ?body' st]] that
    have "r = dump_VisitDetails (stamp current_user now (visit_details ?body'))"
      by auto
    then show ?thesis
      by (simp add: dump_VisitDetails_def dump_PatientVitals_def stamp_def)
  qed
  from 1 2 show ?thesis by blast
qed

theorem blood_pressure_not_validated_witness:
  "validate_VisitUpload free_text_upload = Inr free_text_upload
   \<and> \<not> isl (validate_VisitUpload amina_upload)
   \<and> \<not> spec_bp_format (blood_pressure (visit_vitals (visit_details free_text_upload)))
   \<and> dump_VisitDetails (stamp facility_a clinic_time (visit_details free_text_upload))
       \<in> set (concat (map stored_visits
            (new_calls empty_store
               (snd (postVisit facility_a clinic_time free_text_upload empty_store)))))
   \<and> field ''visit_vitals''
        (dump_VisitDetails (stamp facility_a clinic_time (visit_details free_text_upload)))
       = Some (BDoc [(''blood_pressure'', BStr ''abc''), (''weight'', BNum 16),
                     (''temperature'', BNum 37)])"
proof -
  let ?r = "dump_VisitDetails (stamp facility_a clinic_time (visit_details free_text_upload))"
  have e: "amina_upload\<lparr>visit_details := (visit_details amina_upload)
         \<lparr>visit_vitals := (visit_vitals (visit_details amina_upload))
            \<lparr>blood_pressure := ''abc''\<rparr>\<rparr>\<rparr> = free_text_upload"
    by (simp add: amina_upload_def free_text_upload_def amina_details_def)
  note t = blood_pressure_not_validated [where body = amina_upload and bp = "''abc''"
      and st = empty_store and current_user = facility_a and now = clinic_time,
      unfolded e]
  from t amina_upload_valid
  have 1: "validate_VisitUpload free_text_upload = Inr free_text_upload"
    by (simp add: e)
  have 2: "\<not> isl (validate_VisitUpload amina_upload)"
    by (simp add: amina_upload_valid)
  have 3: "\<not> spec_bp_format (blood_pressure (visit_vitals (visit_details free_text_upload)))"
    by (simp add: free_text_upload_def spec_bp_format_def)
  have 4: "?r \<in> set (concat (map stored_visits
            (new_calls empty_store
               (snd (postVisit facility_a clinic_time free_text_upload empty_store)))))"
  proof -
    have "calls empty_store = []" by (simp add: empty_store_def)
    then show ?thesis
      by (simp add: free_text_first_visit new_calls_def dump_ledgers)
  qed
  from t 4 have "field ''visit_vitals'' ?r
       = Some (BDoc [(''blood_pressure'', BStr ''abc''),
                     (''weight'', BNum (weight (visit_vitals (visit_details amina_upload)))),
                     (''temperature'',
                        BNum (temperature (visit_vitals (visit_details amina_upload))))])"
    by blast
  then have 5: "field ''visit_vitals'' ?r
       = Some (BDoc [(''blood_pressure'', BStr ''abc''), (''weight'', BNum 16),
                     (''temperature'', BNum 37)])"
    by (simp add: amina_upload_def amina_details_def)
  from 1 2 3 4 5 show ?thesis by blast
qed

text \<open>
  A visit whose blood pressure is "abc", which is not of the form systolic/diastolic, is
  accepted and stored with that string.
\<close>

theorem malformed_blood_pressure_stored:
  "spec_bp_format ''127/87''
   \<and> \<not> spec_bp_format ''abc''
   \<and> blood_pressure (visit_vitals (visit_details free_text_upload)) = ''abc''
   \<and> fst (postVisit facility_a clinic_time free_text_upload empty_store)
       = Inr ''Visit posted successfully''
   \<and> concat (map stored_visits
        (calls (snd (postVisit facility_a clinic_time free_text_upload empty_store))))
       = [dump_VisitDetails (stamp facility_a clinic_time (visit_details free_text_upload))]
   \<and> field ''visit_vitals''
        (dump_VisitDetails (stamp facility_a clinic_time (visit_details free_text_upload)))
       = Some (BDoc [(''blood_pressure'', BStr ''abc''), (''weight'', BNum 16),
                     (''temperature'', BNum 37)])"
proof -
  have 1: "spec_bp_format ''127/87''" "\<not> spec_bp_format ''abc''"
    by (simp_all add: spec_bp_format_def)
  have 2: "blood_pressure (visit_vitals (visit_details free_text_upload)) = ''abc''"
    by (simp add: free_text_upload_def)
  note 3 = free_text_first_visit
  have 4: "field ''visit_vitals''
        (dump_VisitDetails (stamp facility_a clinic_time (visit_details free_text_upload)))
       = Some (BDoc [(''blood_pressure'', BStr ''abc''), (''weight'', BNum 16),
                     (''temperature'', BNum 37)])"
    by (simp add: dump_VisitDetails_def dump_PatientVitals_def stamp_def free_text_upload_def
        amina_details_def)
  from 3 have 5: "concat (map stored_visits
        (calls (snd (postVisit facility_a clinic_time free_text_upload empty_store))))
       = [dump_VisitDetails (stamp facility_a clinic_time (visit_details free_text_upload))]"
    by (simp add: dump_ledgers)
  from 1 2 3 4 5 show ?thesis by simp
qed

section \<open>Ledgers only grow\<close>

text \<open>
  C8. After a \<open>postVisit\<close>, every document that was in the collection is still at its
  place with its id number, every visit of its \<open>visits\<close> and of each of its dependents is
  still there, unchanged and in the same order, and every dependent has kept its name
  (\<open>coll_kept\<close>). Besides its \<open>find_one\<close> reads the request makes at most one call that
  writes, and a request that succeeds makes exactly one: an \<open>insert_one\<close> of a new
  document or one \<open>$push\<close> onto \<open>visits\<close>, onto \<open>dependents\<close> or onto the visits of a
  dependent, whose effect is the whole change of the collection. A request that fails leaves
  the collection as it was.
\<close>

theorem postVisit_appends_only:
  "coll_kept (coll st) (coll (snd (postVisit current_user now body st)))
   \<and> length (filter is_write (new_calls st (snd (postVisit current_user now body st)))) \<le> 1
   \<and> list_all (\<lambda>c. is_write c \<longrightarrow> appends c)
       (new_calls st (snd (postVisit current_user now body st)))
   \<and> (fst (postVisit current_user now body st) = Inr s \<longrightarrow>
        (\<exists>w. filter is_write (new_calls st (snd (postVisit current_user now body st))) = [w]
           \<and> appends w
           \<and> run_call w (coll st) = Inr (coll (snd (postVisit current_user now body st)))))
   \<and> (fst (postVisit current_user now body st) = Inl e \<longrightarrow>
        coll (snd (postVisit current_user now body st)) = coll st)"
proof -
  note r = postVisit_rtoa [of current_user now body st]
  have 1: "coll_kept (coll st) (coll (snd (postVisit current_user now body st)))"
    using r by (rule rtoa_kept)
  have 2: "\<exists>w. filter is_write (new_calls st (snd (postVisit current_user now body st))) = [w]
        \<and> appends w
        \<and> run_call w (coll st) = Inr (coll (snd (postVisit current_user now body st)))"
    if "fst (postVisit current_user now body st) = Inr s"
    using rtoa_success [OF r that] by blast
  have 3: "coll (snd (postVisit current_user now body st)) = coll st"
    if "fst (postVisit current_user now body st) = Inl e"
    using rtoa_error_unchanged [OF r that] by blast
  from 1 2 3 rtoa_at_most_one [OF r] show ?thesis by blast
qed

text \<open>
  The second visit of the example: the child's ledger goes from one visit to two.
\<close>

theorem postVisit_appends_only_witness:
  "fst (postVisit facility_b clinic_time wanjiru_upload amina_store)
     = Inr ''Visit posted successfully''
   \<and> coll_kept (coll amina_store)
       (coll (snd (postVisit facility_b clinic_time wanjiru_upload amina_store)))
   \<and> (\<exists>w. filter is_write
             (new_calls amina_store
               (snd (postVisit facility_b clinic_time wanjiru_upload amina_store))) = [w]
         \<and> appends w
         \<and> run_call w (coll amina_store)
             = Inr (coll (snd (postVisit facility_b clinic_time wanjiru_upload amina_store))))
   \<and> visits_of amina_child = [v1]
   \<and> map visits_of (dependents_of
        (hd (coll (snd (postVisit facility_b clinic_time wanjiru_upload amina_store)))))
       = [[v1, v2]]"
proof -
  have ok: "fst (postVisit facility_b clinic_time wanjiru_upload amina_store)
     = Inr ''Visit posted successfully''"
    by (simp add: amina_second_visit)
  have l: "map visits_of (dependents_of
        (hd (coll (snd (postVisit facility_b clinic_time wanjiru_upload amina_store)))))
       = [[v1, v2]]"
    by (simp add: amina_second_visit dependents_of_def visits_of_def elems_def)
  from postVisit_appends_only [where st = amina_store and current_user = facility_b
      and now = clinic_time and body = wanjiru_upload and s = "''Visit posted successfully''"]
    ok l amina_visits
  show ?thesis by blast
qed

section \<open>Documents written by the system\<close>

text \<open>
  C9. In a store that only \<open>postVisit\<close> and \<open>searchVisits\<close> have worked on, starting from
  the empty one, every document has a list \<open>dependents\<close> and a list \<open>visits\<close>, every
  dependent has a name and a list \<open>visits\<close>, and every visit has a \<open>facility_name\<close>; so
  has every document that was ever inserted. In such a store \<open>get_patient\<close> never fails
  with a missing key, nor on the type of what it reads: for every caller and every key whose
  id number fits in eight bytes it returns a list of visits. (For an id number outside eight
  bytes the driver raises OverflowError before the store is reached.)
\<close>

theorem written_documents_have_both_lists:
  assumes "reachable st"
  shows "patient_docs st
         \<and> (\<forall>d. Insert_one d \<in> set (calls st) \<longrightarrow> patient_doc d)
         \<and> (int64 (VisitSearch.id_number key)
              \<longrightarrow> (\<exists>out. fst (get_patient current_user key st) = Inr out))
         \<and> (\<forall>k. fst (get_patient current_user key st) \<noteq> Inl (KeyError k))
         \<and> fst (get_patient current_user key st) \<noteq> Inl TypeError
         \<and> fst (get_patient current_user key st) \<noteq> Inl AttributeError"
proof -
  from assms have "store_ok st" by (rule reachable_store_ok)
  then have p: "patient_docs st"
    and i: "\<forall>d. Insert_one d \<in> set (calls st) \<longrightarrow> patient_doc d"
    by (auto simp: store_ok_def)
  have g: "(int64 (VisitSearch.id_number key)
              \<longrightarrow> (\<exists>out. fst (get_patient current_user key st) = Inr out))
         \<and> (\<forall>k. fst (get_patient current_user key st) \<noteq> Inl (KeyError k))
         \<and> fst (get_patient current_user key st) \<noteq> Inl TypeError
         \<and> fst (get_patient current_user key st) \<noteq> Inl AttributeError"
  proof (cases "int64 (VisitSearch.id_number key)")
    case True
    from get_patient_docs [OF p True, of current_user] show ?thesis
      by simp
  next
    case False
    then show ?thesis
      by (simp add: get_patient_overflow)
  qed
  with p i show ?thesis by blast
qed

theorem written_documents_have_both_lists_witness:
  "reachable amina_store
   \<and> coll amina_store = [amina_parent]
   \<and> patient_docs amina_store
   \<and> int64 (VisitSearch.id_number wanjiru_key)
   \<and> (\<exists>out. fst (get_patient facility_b wanjiru_key amina_store) = Inr out)"
proof -
  have i: "int64 (VisitSearch.id_number wanjiru_key)"
    by (simp add: wanjiru_key_def amina_key_def example_id_int64)
  from written_documents_have_both_lists [OF reachable_amina_store, of wanjiru_key facility_b] i
  have "patient_docs amina_store"
    and "\<exists>out. fst (get_patient facility_b wanjiru_key amina_store) = Inr out"
    by blast+
  with reachable_amina_store i show ?thesis
    by (simp add: amina_store_eq)
qed

section \<open>The validator of the search key\<close>

text \<open>
  C10. \<open>validate_VisitSearch\<close> fails exactly when \<open>is_child\<close> is true and \<open>parent_name\<close>
  is \<open>None\<close> or the four-character string "null", and then with the ValidationError for
  \<open>parent_name\<close>; every other key is returned as it is, the key of a child whose
  \<open>parent_name\<close> is the empty string among them. The validator \<open>get_parent_name\<close> itself
  raises its ValueError under the same condition and returns the parent name otherwise.
\<close>

theorem parent_name_validator:
  "(isl (validate_VisitSearch p)
      \<longleftrightarrow> is_child p \<and> (parent_name p = None \<or> parent_name p = Some ''null''))
   \<and> (isl (validate_VisitSearch p)
        \<longrightarrow> validate_VisitSearch p = Inl (ValidationError [''parent_name'']))
   \<and> (\<not> isl (validate_VisitSearch p) \<longrightarrow> validate_VisitSearch p = Inr p)
   \<and> validate_VisitSearch (p\<lparr>is_child := True, parent_name := Some ''''\<rparr>)
       = Inr (p\<lparr>is_child := True, parent_name := Some ''''\<rparr>)
   \<and> get_parent_name pn (VisitSearch_data p)
       = (if is_child p \<and> (pn = None \<or> pn = Some ''null'')
          then Inl (ValueError ''Must supply a parent name for a child'')
          else Inr pn)"
  by (auto simp: validate_VisitSearch_def get_parent_name_def VisitSearch_data_def)

theorem parent_name_validator_witness:
  "validate_VisitSearch orphan_key = Inl (ValidationError [''parent_name''])
   \<and> validate_VisitSearch (amina_key\<lparr>parent_name := Some ''null''\<rparr>)
       = Inl (ValidationError [''parent_name''])
   \<and> validate_VisitSearch unnamed_parent_key = Inr unnamed_parent_key
   \<and> validate_VisitSearch amina_key = Inr amina_key
   \<and> validate_VisitSearch (orphan_key\<lparr>is_child := False\<rparr>) = Inr (orphan_key\<lparr>is_child := False\<rparr>)"
  using parent_name_validator [of orphan_key]
    parent_name_validator [of "amina_key\<lparr>parent_name := Some ''null''\<rparr>"]
    parent_name_validator [of unnamed_parent_key]
    parent_name_validator [of amina_key]
    parent_name_validator [of "orphan_key\<lparr>is_child := False\<rparr>"]
  by (simp add: orphan_key_def unnamed_parent_key_def amina_key_def)

end
